theory Spec2Isabelle
  imports Main "HOL-Library.Sublist"
begin

section \<open>Text: Python \<open>str\<close> operations used by the backend\<close>

text \<open>
  A Python \<open>str\<close> is modelled as a \<open>string\<close>, each character read as a code point
  in the range 0..255. The classifications below are the ones CPython applies to those
  code points: \<open>str.isspace\<close> (also the regex class \<open>\s\<close>), decimal digits (\<open>\d\<close>),
  alphanumerics plus underscore (\<open>\w\<close>), and \<open>str.lower\<close>.
\<close>

definition is_space :: "char \<Rightarrow> bool" where
  "is_space ch = (let n = (of_char ch :: nat) in
     (9 \<le> n \<and> n \<le> 13) \<or> (28 \<le> n \<and> n \<le> 32) \<or> n = 133 \<or> n = 160)"

definition is_digit :: "char \<Rightarrow> bool" where
  "is_digit ch = (let n = (of_char ch :: nat) in 48 \<le> n \<and> n \<le> 57)"

definition is_word :: "char \<Rightarrow> bool" where
  "is_word ch = (let n = (of_char ch :: nat) in
     (48 \<le> n \<and> n \<le> 57) \<or> (65 \<le> n \<and> n \<le> 90) \<or> n = 95 \<or> (97 \<le> n \<and> n \<le> 122) \<or>
     n = 170 \<or> n = 178 \<or> n = 179 \<or> n = 181 \<or> (185 \<le> n \<and> n \<le> 186) \<or>
     (188 \<le> n \<and> n \<le> 190) \<or> (192 \<le> n \<and> n \<le> 214) \<or> (216 \<le> n \<and> n \<le> 246) \<or>
     248 \<le> n)"

definition lower_char :: "char \<Rightarrow> char" where
  "lower_char ch = (let n = (of_char ch :: nat) in
     if (65 \<le> n \<and> n \<le> 90) \<or> (192 \<le> n \<and> n \<le> 222 \<and> n \<noteq> 215)
     then char_of (n + 32) else ch)"

definition lower :: "string \<Rightarrow> string" where
  "lower s = map lower_char s"

definition lstrip :: "string \<Rightarrow> string" where
  "lstrip s = dropWhile is_space s"

definition rstrip :: "string \<Rightarrow> string" where
  "rstrip s = rev (dropWhile is_space (rev s))"

definition strip :: "string \<Rightarrow> string" where
  "strip s = rstrip (lstrip s)"

text \<open>\<open>sub in s\<close> for strings: substring containment.\<close>

fun py_in :: "string \<Rightarrow> string \<Rightarrow> bool" where
  "py_in sub [] = (sub = [])"
| "py_in sub (x # t) = (prefix sub (x # t) \<or> py_in sub t)"

text \<open>\<open>s.count(ch)\<close> for a one-character argument.\<close>

definition count_char :: "char \<Rightarrow> string \<Rightarrow> nat" where
  "count_char ch s = length (filter (\<lambda>x. x = ch) s)"

text \<open>\<open>s.split('\n')\<close> and \<open>'\n'.join(lines)\<close>.\<close>

fun split_lines :: "string \<Rightarrow> string list" where
  "split_lines [] = [[]]"
| "split_lines (x # t) =
     (if x = CHR 0x0A then [] # split_lines t
      else (case split_lines t of [] \<Rightarrow> [[x]] | l # ls \<Rightarrow> (x # l) # ls))"

fun join_lines :: "string list \<Rightarrow> string" where
  "join_lines [] = []"
| "join_lines [l] = l"
| "join_lines (l # l' # ls) = l @ CHR 0x0A # join_lines (l' # ls)"

text \<open>\<open>s.replace(old, new)\<close> for a non-empty \<open>old\<close>: every non-overlapping occurrence,
  left to right.\<close>

function py_replace :: "string \<Rightarrow> string \<Rightarrow> string \<Rightarrow> string" where
  "py_replace old new [] = []"
| "py_replace old new (x # t) =
     (if old \<noteq> [] \<and> prefix old (x # t)
      then new @ py_replace old new (drop (length old) (x # t))
      else x # py_replace old new t)"
  by pat_completeness auto
termination
  by (relation "measure (\<lambda>(old, new, s). length s)") (auto simp: neq_Nil_conv)

section \<open>Regular expressions: the backtracking matcher of \<open>re\<close>\<close>

text \<open>
  The patterns of the backend are written in the following abstract syntax. Flags are
  compiled into the syntax: under \<open>IGNORECASE\<close> a literal becomes \<open>CCharI\<close>, under
  \<open>MULTILINE\<close> the anchors become \<open>BolM\<close> and \<open>EolM\<close>, under \<open>DOTALL\<close> the dot becomes
  \<open>CAny\<close>. Every repetition in the source ranges over a single character class, so
  \<open>Rep\<close> takes a class, a lower bound, an optional upper bound and the greedy flag.
\<close>

datatype cclass =
    CChar char
  | CCharI char
  | CSpace
  | CDigit
  | CAny
  | CDot
  | CRange char char
  | COneOf "cclass list"
  | CNoneOf "cclass list"

fun cmatch :: "cclass \<Rightarrow> char \<Rightarrow> bool" where
  "cmatch (CChar a) x = (x = a)"
| "cmatch (CCharI a) x = (lower_char x = lower_char a)"
| "cmatch CSpace x = is_space x"
| "cmatch CDigit x = is_digit x"
| "cmatch CAny x = True"
| "cmatch CDot x = (x \<noteq> CHR 0x0A)"
| "cmatch (CRange a b) x = ((of_char a :: nat) \<le> of_char x \<and> (of_char x :: nat) \<le> of_char b)"
| "cmatch (COneOf cs) x = list_ex (\<lambda>c. cmatch c x) cs"
| "cmatch (CNoneOf cs) x = (\<not> list_ex (\<lambda>c. cmatch c x) cs)"

datatype regex =
    Eps
  | Cls cclass
  | Seq regex regex
  | Alt regex regex
  | Rep cclass nat "nat option" bool
  | Grp nat regex
  | Bref nat
  | BolM
  | Eol
  | EolM
  | WordB

fun Lit :: "string \<Rightarrow> regex" where
  "Lit [] = Eps"
| "Lit [x] = Cls (CChar x)"
| "Lit (x # y # t) = Seq (Cls (CChar x)) (Lit (y # t))"

fun LitI :: "string \<Rightarrow> regex" where
  "LitI [] = Eps"
| "LitI [x] = Cls (CCharI x)"
| "LitI (x # y # t) = Seq (Cls (CCharI x)) (LitI (y # t))"

fun Seqs :: "regex list \<Rightarrow> regex" where
  "Seqs [] = Eps"
| "Seqs [r] = r"
| "Seqs (r # r' # rs) = Seq r (Seqs (r' # rs))"

fun Alts :: "regex \<Rightarrow> regex list \<Rightarrow> regex" where
  "Alts r [] = r"
| "Alts r (r' # rs) = Alt r (Alts r' rs)"

abbreviation Star :: "cclass \<Rightarrow> regex" where "Star c \<equiv> Rep c 0 None True"
abbreviation Plus :: "cclass \<Rightarrow> regex" where "Plus c \<equiv> Rep c 1 None True"
abbreviation StarLazy :: "cclass \<Rightarrow> regex" where "StarLazy c \<equiv> Rep c 0 None False"
abbreviation AtLeast :: "nat \<Rightarrow> cclass \<Rightarrow> regex" where "AtLeast n c \<equiv> Rep c n None True"

type_synonym caps = "(nat \<times> string) list"

text \<open>
  The matcher runs a stack of frames against the text that is left: a pattern still to
  match, the end of a capturing group (with the text that was left when the group
  opened), or the check that the whole match is not empty (\<open>must_advance\<close> in the
  engine, set after an empty match). It carries the character before the current
  position, for \<open>^\<close> and \<open>\b\<close>. Alternatives and repetitions are tried in the engine's
  order and the first complete match wins.
\<close>

datatype frame = R regex | GEnd nat string | Adv nat

fun rsize :: "regex \<Rightarrow> nat" where
  "rsize (Seq a b) = rsize a + rsize b + 1"
| "rsize (Alt a b) = rsize a + rsize b + 1"
| "rsize (Grp g r) = rsize r + 2"
| "rsize r = 1"

fun fsize :: "frame \<Rightarrow> nat" where
  "fsize (R r) = rsize r"
| "fsize (GEnd g s) = 1"
| "fsize (Adv n) = 1"

definition word_boundary :: "char option \<Rightarrow> string \<Rightarrow> bool" where
  "word_boundary p s =
     ((case p of None \<Rightarrow> False | Some a \<Rightarrow> is_word a) \<noteq>
      (case s of [] \<Rightarrow> False | x # t \<Rightarrow> is_word x))"

definition dec_opt :: "nat option \<Rightarrow> nat option" where
  "dec_opt hi = map_option (\<lambda>h. h - 1) hi"

function m :: "frame list \<Rightarrow> char option \<Rightarrow> string \<Rightarrow> caps \<Rightarrow> (char option \<times> string \<times> caps) option" where
  "m [] p s c = Some (p, s, c)"
| "m (Adv n # k) p s c = (if length s < n then m k p s c else None)"
| "m (GEnd g s0 # k) p s c = m k p s ((g, take (length s0 - length s) s0) # c)"
| "m (R Eps # k) p s c = m k p s c"
| "m (R (Cls cc) # k) p [] c = None"
| "m (R (Cls cc) # k) p (x # t) c = (if cmatch cc x then m k (Some x) t c else None)"
| "m (R (Seq a b) # k) p s c = m (R a # R b # k) p s c"
| "m (R (Alt a b) # k) p s c =
     (case m (R a # k) p s c of Some r \<Rightarrow> Some r | None \<Rightarrow> m (R b # k) p s c)"
| "m (R (Rep cc lo hi greedy) # k) p [] c = (if lo = 0 then m k p [] c else None)"
| "m (R (Rep cc lo hi greedy) # k) p (x # t) c =
     (if greedy then
        (case (if hi \<noteq> Some 0 \<and> cmatch cc x
               then m (R (Rep cc (lo - 1) (dec_opt hi) greedy) # k) (Some x) t c else None) of
           Some r \<Rightarrow> Some r
         | None \<Rightarrow> if lo = 0 then m k p (x # t) c else None)
      else
        (case (if lo = 0 then m k p (x # t) c else None) of
           Some r \<Rightarrow> Some r
         | None \<Rightarrow> if hi \<noteq> Some 0 \<and> cmatch cc x
               then m (R (Rep cc (lo - 1) (dec_opt hi) greedy) # k) (Some x) t c else None))"
| "m (R (Grp g r) # k) p s c = m (R r # GEnd g s # k) p s c"
| "m (R (Bref g) # k) p s c =
     (case map_of c g of
        None \<Rightarrow> None
      | Some t \<Rightarrow> if prefix t s
                 then m k (if t = [] then p else Some (last t)) (drop (length t) s) c
                 else None)"
| "m (R BolM # k) p s c = (if p = None \<or> p = Some (CHR 0x0A) then m k p s c else None)"
| "m (R Eol # k) p s c = (if s = [] \<or> s = [CHR 0x0A] then m k p s c else None)"
| "m (R EolM # k) p s c =
     (if (case s of [] \<Rightarrow> True | x # t \<Rightarrow> x = CHR 0x0A) then m k p s c else None)"
| "m (R WordB # k) p s c = (if word_boundary p s then m k p s c else None)"
  by pat_completeness auto
termination
  by (relation "measure (\<lambda>(k, p, s, c). sum_list (map fsize k) + length s)") auto

text \<open>
  \<open>search\<close> tries the pattern at the current position, then one character further, up to
  and including the end of the text. It returns the text skipped, the text matched, the
  groups, and the position after the match (the character before it and the text left).
  \<open>adv\<close> is the engine's \<open>must_advance\<close>: an empty match at the first position is refused.
\<close>

type_synonym found = "string \<times> string \<times> caps \<times> char option \<times> string"

definition match_at :: "regex \<Rightarrow> bool \<Rightarrow> char option \<Rightarrow> string \<Rightarrow> (char option \<times> string \<times> caps) option" where
  "match_at r adv p s = m (R r # (if adv then [Adv (length s)] else [])) p s []"

definition skip1 :: "char \<Rightarrow> found option \<Rightarrow> found option" where
  "skip1 x res = map_option (\<lambda>(pre, mt, c, p', s'). (x # pre, mt, c, p', s')) res"

fun search :: "regex \<Rightarrow> bool \<Rightarrow> char option \<Rightarrow> string \<Rightarrow> found option" where
  "search r adv p [] =
     (case match_at r adv p [] of
        Some (p', s', c) \<Rightarrow> Some ([], [], c, p', s')
      | None \<Rightarrow> None)"
| "search r adv p (x # t) =
     (case match_at r adv p (x # t) of
        Some (p', s', c) \<Rightarrow> Some ([], take (length (x # t) - length s') (x # t), c, p', s')
      | None \<Rightarrow> skip1 x (search r False (Some x) t))"

text \<open>\<open>re.search(pattern, s)\<close>: the start offset, the matched text and the groups of the
  leftmost match.\<close>

definition re_search :: "regex \<Rightarrow> string \<Rightarrow> (nat \<times> string \<times> caps) option" where
  "re_search r s = map_option (\<lambda>(pre, mt, c, p', s'). (length pre, mt, c)) (search r False None s)"

text \<open>\<open>match.group(g)\<close>: \<open>None\<close> when the group took no part in the match.\<close>

definition group :: "caps \<Rightarrow> nat \<Rightarrow> string option" where
  "group c g = map_of c g"

subsection \<open>Facts about the matcher that the scanning loop rests on\<close>

lemma m_suffix: "m k p s c = Some (p', s', c') \<Longrightarrow> suffix s' s"
proof (induction k p s c rule: m.induct)
  case (6 cc k p x t c)
  then show ?case by (auto split: if_splits intro: suffix_ConsI)
next
  case (10 cc lo hi greedy k p x t c)
  then show ?case by (auto split: if_splits option.splits intro: suffix_ConsI)
next
  case (12 g k p s c)
  then show ?case
    by (auto split: if_splits option.splits intro: suffix_order.trans [OF _ suffix_drop])
qed (auto split: if_splits option.splits)

lemma m_adv: "m k p s c = Some (p', s', c') \<Longrightarrow> Adv n \<in> set k \<Longrightarrow> length s' < n"
proof (induction k p s c rule: m.induct)
  case (2 n' k p s c)
  then show ?case
    by (auto split: if_splits dest!: m_suffix suffix_length_le)
qed (auto split: if_splits option.splits)

lemma match_at_suffix: "match_at r adv p s = Some (p', s', c) \<Longrightarrow> suffix s' s"
  unfolding match_at_def by (rule m_suffix)

lemma match_at_adv: "match_at r True p s = Some (p', s', c) \<Longrightarrow> length s' < length s"
  unfolding match_at_def by (rule m_adv) auto

lemma suffix_take_decomp: "suffix s' s \<Longrightarrow> s = take (length s - length s') s @ s'"
  by (auto simp: suffix_def)

lemma search_decomp:
  "search r adv p s = Some (pre, mt, c, p', s') \<Longrightarrow> s = pre @ mt @ s'"
proof (induction r adv p s arbitrary: pre rule: search.induct)
  case (1 r adv p)
  then show ?case
    by (auto split: option.splits dest!: match_at_suffix)
next
  case (2 r adv p x t)
  show ?case
  proof (cases "match_at r adv p (x # t)")
    case None
    with 2 show ?thesis by (auto simp: skip1_def)
  next
    case (Some res)
    obtain p1 s1 c1 where res: "res = (p1, s1, c1)" by (cases res)
    from Some res have "suffix s1 (x # t)" by (auto dest: match_at_suffix)
    from suffix_take_decomp [OF this] Some res 2(2) show ?thesis by auto
  qed
qed

lemma search_adv:
  assumes a: "search r True p s = Some ([], mt, c, p', s')"
  shows "mt \<noteq> []"
proof (cases s)
  case Nil
  with a show ?thesis by (auto split: option.splits dest!: match_at_adv)
next
  case (Cons x t)
  show ?thesis
  proof (cases "match_at r True p (x # t)")
    case None
    with a Cons show ?thesis by (auto simp: skip1_def)
  next
    case (Some res)
    obtain p1 s1 c1 where res: "res = (p1, s1, c1)" by (cases res)
    from Some res have "length s1 < length (x # t)" by (auto dest: match_at_adv)
    with a Cons Some res show ?thesis by auto
  qed
qed

subsection \<open>The scanning loop shared by \<open>sub\<close>, \<open>findall\<close> and \<open>split\<close>\<close>

text \<open>
  The engine's loop: while the count allows (\<open>count = 0\<close> is no limit), search from where
  the last match ended, with \<open>must_advance\<close> set when that match was empty. The loop
  yields, for every match, the text skipped before it, the text matched and the groups,
  and at the end the text left over.
\<close>

type_synonym piece = "string \<times> string \<times> caps"

function scan :: "regex \<Rightarrow> nat \<Rightarrow> nat \<Rightarrow> bool \<Rightarrow> char option \<Rightarrow> string \<Rightarrow> piece list \<times> string" where
  "scan r count n adv p s =
     (if count \<noteq> 0 \<and> count \<le> n then ([], s)
      else (case search r adv p s of
              None \<Rightarrow> ([], s)
            | Some (pre, mt, c, p', s') \<Rightarrow>
                (case scan r count (n + 1) (mt = []) p' s' of
                   (ps, left) \<Rightarrow> ((pre, mt, c) # ps, left))))"
  by pat_completeness auto
termination
proof (relation "measure (\<lambda>(r, count, n, adv, p, s). 2 * length s + (if adv then 0 else 1))",
    goal_cases)
  case 1
  then show ?case by simp
next
  case (2 r count n adv p s res pre x2 mt x2a c x2b p' s')
  then have d: "s = pre @ mt @ s'" by (auto dest: search_decomp)
  show ?case
  proof (cases "pre = [] \<and> mt = []")
    case False
    with d show ?thesis by (cases pre; cases mt) auto
  next
    case True
    with 2 have "\<not> adv" by (cases adv) (auto dest: search_adv)
    with d True show ?thesis by auto
  qed
qed

declare scan.simps [simp del]

text \<open>\<open>pattern.groups\<close>: the number of capturing groups.\<close>

fun ngroups :: "regex \<Rightarrow> nat" where
  "ngroups (Seq a b) = ngroups a + ngroups b"
| "ngroups (Alt a b) = ngroups a + ngroups b"
| "ngroups (Grp g r) = 1 + ngroups r"
| "ngroups r = 0"

text \<open>\<open>re.findall(pattern, s)\<close> for a pattern with at most one group: the whole match
  when the pattern has no group, else group 1 (the empty string when it took no part).\<close>

definition re_findall :: "regex \<Rightarrow> string \<Rightarrow> string list" where
  "re_findall r s =
     map (\<lambda>(pre, mt, c). if ngroups r = 0 then mt
                          else (case group c 1 of None \<Rightarrow> [] | Some g \<Rightarrow> g))
       (fst (scan r 0 0 False None s))"

text \<open>\<open>re.sub(pattern, repl, s, count)\<close>; \<open>repl\<close> gives the replacement from the matched
  text and the groups.\<close>

definition re_sub :: "regex \<Rightarrow> (string \<Rightarrow> caps \<Rightarrow> string) \<Rightarrow> string \<Rightarrow> nat \<Rightarrow> string" where
  "re_sub r repl s count =
     (case scan r count 0 False None s of
        (ps, left) \<Rightarrow> concat (map (\<lambda>(pre, mt, c). pre @ repl mt c) ps) @ left)"

text \<open>\<open>pattern.split(s, 1)\<close> for a pattern without groups.\<close>

definition re_split1 :: "regex \<Rightarrow> string \<Rightarrow> string list" where
  "re_split1 r s =
     (case search r False None s of
        None \<Rightarrow> [s]
      | Some (pre, mt, c, p', s') \<Rightarrow> [pre, s'])"

section \<open>Data model\<close>

text \<open>
  The dictionaries of the backend: the generated component (\<open>ts\<close>, \<open>html\<close>, \<open>raw\<close>), the
  result of validation, and the attempt log of the correction loop. The field of the
  returned dictionary that Python calls \<open>attempts\<close> is \<open>attempts_made\<close> here.
\<close>

record code =
  ts :: string
  html :: string
  raw :: string

record validation =
  valid :: bool
  errors :: "string list"
  error_count :: nat

text \<open>
  \<open>design_system.json\<close> is read at start-up and is not part of the sources; it is a
  parameter of the model. \<open>allowed_colors\<close> is \<open>rules.allowed_colors\<close>; the three
  optional lists are the keys of \<open>rules\<close> that the validator tries in turn for the
  radii; \<open>required_font\<close> is \<open>rules.required_font\<close>; \<open>tokens_json\<close> is \<open>json.dumps(tokens, indent=2)\<close>.
\<close>

record design_system =
  allowed_colors :: "string list"
  border_radius_values :: "string list option"
  allowed_radii :: "string list option"
  allowed_radii_values :: "string list option"
  required_font :: string
  tokens_json :: string

section \<open>\<open>validator.py\<close>\<close>

subsection \<open>\<open>repr\<close> of a list of strings, as an f-string prints it\<close>

definition hex_digit :: "nat \<Rightarrow> char" where
  "hex_digit d = ''0123456789abcdef'' ! (d mod 16)"

definition repr_char :: "char \<Rightarrow> char \<Rightarrow> string" where
  "repr_char q ch = (let n = (of_char ch :: nat) in
     if ch = q \<or> ch = CHR 0x5C then [CHR 0x5C, ch]
     else if n = 9 then [CHR 0x5C, CHR ''t'']
     else if n = 10 then [CHR 0x5C, CHR ''n'']
     else if n = 13 then [CHR 0x5C, CHR ''r'']
     else if n < 32 \<or> (127 \<le> n \<and> n \<le> 160) \<or> n = 173
       then [CHR 0x5C, CHR ''x'', hex_digit (n div 16), hex_digit n]
     else [ch])"

definition repr_str :: "string \<Rightarrow> string" where
  "repr_str s =
     (let q = (if CHR 0x27 \<in> set s \<and> CHR 0x22 \<notin> set s then CHR 0x22 else CHR 0x27)
      in [q] @ concat (map (repr_char q) s) @ [q])"

fun join_comma :: "string list \<Rightarrow> string" where
  "join_comma [] = []"
| "join_comma [x] = x"
| "join_comma (x # y # t) = x @ '', '' @ join_comma (y # t)"

definition repr_list :: "string list \<Rightarrow> string" where
  "repr_list xs = ''['' @ join_comma (map repr_str xs) @ '']''"

subsection \<open>The patterns\<close>

text \<open>\<^verbatim>\<open>#[0-9a-fA-F]{3,6}\<close>\<close>

definition hex_color_re :: regex where
  "hex_color_re =
     Seq (Cls (CChar CHR ''#''))
       (Rep (COneOf [CRange CHR ''0'' CHR ''9'', CRange CHR ''a'' CHR ''f'', CRange CHR ''A'' CHR ''F''])
          3 (Some 6) True)"

text \<open>\<^verbatim>\<open>border-radius\s*:\s*([0-9]+px|50%|9999px)\<close> with \<open>IGNORECASE\<close>\<close>

definition css_radius_re :: regex where
  "css_radius_re =
     Seqs [LitI ''border-radius'', Star CSpace, Cls (CCharI CHR '':''), Star CSpace,
       Grp 1 (Alts (Seq (Plus (CRange CHR ''0'' CHR ''9'')) (LitI ''px''))
                [LitI ''50%'', LitI ''9999px''])]"

text \<open>\<^verbatim>\<open>rounded-\[\s*([0-9]+px)\s*\]\<close>\<close>

definition bracketed_re :: regex where
  "bracketed_re =
     Seqs [Lit ''rounded-['', Star CSpace,
       Grp 1 (Seq (Plus (CRange CHR ''0'' CHR ''9'')) (Lit ''px'')), Star CSpace, Lit '']'']"

text \<open>\<^verbatim>\<open>rounded-([0-9]+px)\<close>\<close>

definition classes_with_px_re :: regex where
  "classes_with_px_re =
     Seq (Lit ''rounded-'') (Grp 1 (Seq (Plus (CRange CHR ''0'' CHR ''9'')) (Lit ''px'')))"

subsection \<open>\<open>validate_component\<close>\<close>

definition tailwind_map :: "(string \<times> string) list" where
  "tailwind_map =
     [(''rounded-sm'', ''4px''), (''rounded'', ''8px''), (''rounded-md'', ''12px''),
      (''rounded-lg'', ''16px''), (''rounded-full'', ''9999px''), (''rounded-pill'', ''9999px'')]"

text \<open>\<open>a or b\<close> where \<open>a\<close> is the result of \<open>rules.get\<close>: \<open>None\<close> and the empty list are
  false.\<close>

definition get_or :: "string list option \<Rightarrow> string list \<Rightarrow> string list" where
  "get_or a b = (case a of None \<Rightarrow> b | Some l \<Rightarrow> if l = [] then b else l)"

definition radii_of :: "design_system \<Rightarrow> string list" where
  "radii_of ds =
     get_or (border_radius_values ds) (get_or (allowed_radii ds)
       (get_or (allowed_radii_values ds) (get_or (allowed_radii_values ds) [])))"

definition full_code_of :: "code \<Rightarrow> string" where
  "full_code_of cd = ts cd @ [CHR 0x0A] @ html cd"

definition color_msg :: "string list \<Rightarrow> string \<Rightarrow> string" where
  "color_msg allowed color =
     ''UNAUTHORIZED_COLOR: '' @ [CHR 0x27] @ color @ [CHR 0x27] @
     '' is not in the design system. Allowed: '' @ repr_list allowed"

definition radius_msg :: "string list \<Rightarrow> string" where
  "radius_msg radii =
     ''UNAUTHORIZED_RADIUS: Radius used is not in the design system. Allowed: '' @ repr_list radii"

definition syntax_msg :: "char \<Rightarrow> char \<Rightarrow> string" where
  "syntax_msg open_char close_char =
     ''SYNTAX_ERROR: Unbalanced '' @ [CHR 0x27, open_char, CHR 0x27] @ '' and '' @
     [CHR 0x27, close_char, CHR 0x27]"

text \<open>The radii the validator detects, in the order it collects them.\<close>

definition detected_radii :: "string \<Rightarrow> string list" where
  "detected_radii full_code =
     (let detected = [];
          detected = detected @ re_findall css_radius_re full_code;
          detected = foldl (\<lambda>d (token, px). if py_in token full_code then d @ [px] else d)
                       detected tailwind_map;
          bracketed = re_findall bracketed_re full_code;
          detected = detected @ bracketed;
          classes_with_px = re_findall classes_with_px_re full_code;
          detected = detected @ classes_with_px
      in detected)"

text \<open>
  The validator appends to one list \<open>errors\<close>, block after block. Each block of the
  source is a function from the list so far to the list after it.
\<close>

definition check_colors :: "design_system \<Rightarrow> string \<Rightarrow> string list \<Rightarrow> string list" where
  "check_colors ds full_code errs =
     (let found_colors = re_findall hex_color_re full_code;
          allowed = map lower (allowed_colors ds)
      in foldl (\<lambda>e color. if lower color \<notin> set allowed
                             then e @ [color_msg allowed color] else e)
           errs found_colors)"

definition check_font :: "string \<Rightarrow> string list \<Rightarrow> string list" where
  "check_font full_code errs =
     (if \<not> py_in ''Inter'' full_code
      then errs @ [''MISSING_FONT: Component must use 'Inter' font family'']
      else errs)"

definition check_radius :: "design_system \<Rightarrow> string \<Rightarrow> string list \<Rightarrow> string list" where
  "check_radius ds full_code errs =
     (let radii = radii_of ds;
          detected = detected_radii full_code
      in if detected \<noteq> []
         then (let found_allowed = list_ex (\<lambda>r. r \<in> set radii) detected
               in if \<not> found_allowed then errs @ [radius_msg radii] else errs)
         else errs)"

definition check_brackets :: "string \<Rightarrow> string list \<Rightarrow> string list" where
  "check_brackets t errs =
     foldl (\<lambda>e (open_char, close_char).
              if count_char open_char t \<noteq> count_char close_char t
              then e @ [syntax_msg open_char close_char] else e)
       errs [(CHR ''{'', CHR ''}''), (CHR ''('', CHR '')''), (CHR ''['', CHR '']'')]"

definition check_decorator :: "string \<Rightarrow> string list \<Rightarrow> string list" where
  "check_decorator t errs =
     (if \<not> py_in ''@Component'' t
      then errs @ [''MISSING_DECORATOR: @Component decorator is required'']
      else errs)"

definition check_class :: "string \<Rightarrow> string list \<Rightarrow> string list" where
  "check_class t errs =
     (if \<not> py_in ''export class'' t
      then errs @ [''MISSING_CLASS: Component must export a class'']
      else errs)"

definition validate_component :: "design_system \<Rightarrow> code \<Rightarrow> validation" where
  "validate_component ds cd =
     (let errs = [];
          full_code = full_code_of cd;
          errs = check_colors ds full_code errs;
          errs = check_font full_code errs;
          errs = check_radius ds full_code errs;
          t = ts cd;
          errs = check_brackets t errs;
          errs = check_decorator t errs;
          errs = check_class t errs
      in \<lparr>valid = (length errs = 0), errors = errs, error_count = length errs\<rparr>)"

subsection \<open>The checks one by one\<close>

text \<open>
  The kind of an error record is the tag its message starts with. The six checks are
  stated here each on its own, as functions of the component and the design system
  only; \<open>validate_component\<close> above threads one error list through all of them.
\<close>

definition is_kind :: "string \<Rightarrow> string \<Rightarrow> bool" where
  "is_kind k e = prefix (k @ '': '') e"

definition color_errors :: "design_system \<Rightarrow> code \<Rightarrow> string list" where
  "color_errors ds cd =
     map (color_msg (map lower (allowed_colors ds)))
       (filter (\<lambda>color. lower color \<notin> set (map lower (allowed_colors ds)))
          (re_findall hex_color_re (full_code_of cd)))"

definition font_errors :: "code \<Rightarrow> string list" where
  "font_errors cd =
     (if py_in ''Inter'' (full_code_of cd) then []
      else [''MISSING_FONT: Component must use 'Inter' font family''])"

definition radius_errors :: "design_system \<Rightarrow> code \<Rightarrow> string list" where
  "radius_errors ds cd =
     (if detected_radii (full_code_of cd) \<noteq> [] \<and>
         \<not> list_ex (\<lambda>r. r \<in> set (radii_of ds)) (detected_radii (full_code_of cd))
      then [radius_msg (radii_of ds)] else [])"

definition syntax_errors :: "code \<Rightarrow> string list" where
  "syntax_errors cd =
     map (\<lambda>(open_char, close_char). syntax_msg open_char close_char)
       (filter (\<lambda>(open_char, close_char).
                  count_char open_char (ts cd) \<noteq> count_char close_char (ts cd))
          [(CHR ''{'', CHR ''}''), (CHR ''('', CHR '')''), (CHR ''['', CHR '']'')])"

definition decorator_errors :: "code \<Rightarrow> string list" where
  "decorator_errors cd =
     (if py_in ''@Component'' (ts cd) then []
      else [''MISSING_DECORATOR: @Component decorator is required''])"

definition class_errors :: "code \<Rightarrow> string list" where
  "class_errors cd =
     (if py_in ''export class'' (ts cd) then []
      else [''MISSING_CLASS: Component must export a class''])"

lemma foldl_collect:
  "foldl (\<lambda>e x. if P x then e @ [f x] else e) acc xs = acc @ map f (filter P xs)"
  by (induction xs arbitrary: acc) auto

lemma foldl_collect_pairs:
  "foldl (\<lambda>e (a, b). if P a b then e @ [f a b] else e) acc xs =
     acc @ map (\<lambda>(a, b). f a b) (filter (\<lambda>(a, b). P a b) xs)"
  by (induction xs arbitrary: acc) auto

lemma check_colors_eq:
  "check_colors ds (full_code_of cd) errs = errs @ color_errors ds cd"
  by (simp add: check_colors_def color_errors_def Let_def foldl_collect del: foldl.simps)

lemma check_font_eq: "check_font (full_code_of cd) errs = errs @ font_errors cd"
  by (simp add: check_font_def font_errors_def)

lemma check_radius_eq:
  "check_radius ds (full_code_of cd) errs = errs @ radius_errors ds cd"
  by (simp add: check_radius_def radius_errors_def Let_def)

lemma check_brackets_eq: "check_brackets (ts cd) errs = errs @ syntax_errors cd"
  by (simp add: check_brackets_def syntax_errors_def foldl_collect_pairs del: foldl.simps)

lemma check_decorator_eq: "check_decorator (ts cd) errs = errs @ decorator_errors cd"
  by (simp add: check_decorator_def decorator_errors_def)

lemma check_class_eq: "check_class (ts cd) errs = errs @ class_errors cd"
  by (simp add: check_class_def class_errors_def)

lemma validate_errors:
  "errors (validate_component ds cd) =
     color_errors ds cd @ font_errors cd @ radius_errors ds cd @ syntax_errors cd @
     decorator_errors cd @ class_errors cd"
  by (simp add: validate_component_def Let_def check_colors_eq check_font_eq
      check_radius_eq check_brackets_eq check_decorator_eq check_class_eq)

lemma detected_radii_parts:
  "detected_radii full =
     re_findall css_radius_re full @
     map snd (filter (\<lambda>(token, px). py_in token full) tailwind_map) @
     re_findall bracketed_re full @ re_findall classes_with_px_re full"
proof -
  have "(\<lambda>(a, b). b) = (snd :: string \<times> string \<Rightarrow> string)" by auto
  then show ?thesis
    unfolding detected_radii_def Let_def
    by (simp add: foldl_collect_pairs del: foldl.simps)
qed

lemma is_kind_color_msg [simp]: "is_kind ''UNAUTHORIZED_COLOR'' (color_msg a c)"
  by (simp add: is_kind_def color_msg_def)

lemma not_radius_color_msg [simp]: "\<not> is_kind ''UNAUTHORIZED_RADIUS'' (color_msg a c)"
  by (simp add: is_kind_def color_msg_def)

lemma is_kind_radius_msg [simp]: "is_kind ''UNAUTHORIZED_RADIUS'' (radius_msg r)"
  by (simp add: is_kind_def radius_msg_def)

lemma not_color_radius_msg [simp]: "\<not> is_kind ''UNAUTHORIZED_COLOR'' (radius_msg r)"
  by (simp add: is_kind_def radius_msg_def)

lemma not_kind_syntax_msg [simp]:
  "\<not> is_kind ''UNAUTHORIZED_COLOR'' (syntax_msg a b)"
  "\<not> is_kind ''UNAUTHORIZED_RADIUS'' (syntax_msg a b)"
  by (simp_all add: is_kind_def syntax_msg_def)

lemma filter_color_errors [simp]:
  "filter (is_kind ''UNAUTHORIZED_COLOR'') (color_errors ds cd) = color_errors ds cd"
  "filter (is_kind ''UNAUTHORIZED_RADIUS'') (color_errors ds cd) = []"
  by (auto simp: color_errors_def filter_empty_conv)

lemma filter_font_errors [simp]:
  "filter (is_kind ''UNAUTHORIZED_COLOR'') (font_errors cd) = []"
  "filter (is_kind ''UNAUTHORIZED_RADIUS'') (font_errors cd) = []"
  by (simp_all add: font_errors_def is_kind_def)

lemma filter_radius_errors [simp]:
  "filter (is_kind ''UNAUTHORIZED_COLOR'') (radius_errors ds cd) = []"
  "filter (is_kind ''UNAUTHORIZED_RADIUS'') (radius_errors ds cd) = radius_errors ds cd"
  by (simp_all add: radius_errors_def)

lemma filter_syntax_errors [simp]:
  "filter (is_kind ''UNAUTHORIZED_COLOR'') (syntax_errors cd) = []"
  "filter (is_kind ''UNAUTHORIZED_RADIUS'') (syntax_errors cd) = []"
  by (auto simp: syntax_errors_def filter_empty_conv)

lemma filter_decorator_errors [simp]:
  "filter (is_kind ''UNAUTHORIZED_COLOR'') (decorator_errors cd) = []"
  "filter (is_kind ''UNAUTHORIZED_RADIUS'') (decorator_errors cd) = []"
  by (simp_all add: decorator_errors_def is_kind_def)

lemma filter_class_errors [simp]:
  "filter (is_kind ''UNAUTHORIZED_COLOR'') (class_errors cd) = []"
  "filter (is_kind ''UNAUTHORIZED_RADIUS'') (class_errors cd) = []"
  by (simp_all add: class_errors_def is_kind_def)


lemma radius_errors_of_validate:
  "filter (is_kind ''UNAUTHORIZED_RADIUS'') (errors (validate_component ds cd)) =
     radius_errors ds cd"
  by (simp add: validate_errors)

text \<open>
  C5. For every component and every design system, the validator's result has
  \<open>valid = (error_count = 0)\<close> and \<open>error_count\<close> equal to the length of the error list,
  and the error list is the errors of the colour check, then of the font check, the
  radius check, the bracket balance, the decorator check and the class check, each
  computed whatever the others found.
\<close>

theorem validate_component_result:
  "valid (validate_component ds cd) = (error_count (validate_component ds cd) = 0) \<and>
   error_count (validate_component ds cd) = length (errors (validate_component ds cd)) \<and>
   errors (validate_component ds cd) =
     color_errors ds cd @ font_errors cd @ radius_errors ds cd @ syntax_errors cd @
     decorator_errors cd @ class_errors cd"
proof -
  have "valid (validate_component ds cd) = (error_count (validate_component ds cd) = 0)"
    by (simp add: validate_component_def Let_def)
  moreover have "error_count (validate_component ds cd) =
      length (errors (validate_component ds cd))"
    by (simp add: validate_component_def Let_def)
  ultimately show ?thesis using validate_errors by blast
qed


lemma py_in_iff_sublist: "py_in sub s \<longleftrightarrow> sublist sub s"
  by (induction s) (auto simp: sublist_Cons_right)

subsection \<open>The colour check\<close>


text \<open>Design systems and components of the examples below.\<close>

definition ds_white :: design_system where
  "ds_white = \<lparr>allowed_colors = [''#ffffff''], border_radius_values = None,
     allowed_radii = None, allowed_radii_values = None, required_font = ''Inter'',
     tokens_json = []\<rparr>"

definition ds_radius :: "string \<Rightarrow> design_system" where
  "ds_radius r = \<lparr>allowed_colors = [], border_radius_values = Some [r],
     allowed_radii = None, allowed_radii_values = None, required_font = ''Inter'',
     tokens_json = []\<rparr>"

definition component :: "string \<Rightarrow> string \<Rightarrow> code" where
  "component t h = \<lparr>ts = t, html = h, raw = []\<rparr>"



subsection \<open>The corner-radius check\<close>

lemma radius_kind_of_validate:
  "list_ex (is_kind ''UNAUTHORIZED_RADIUS'') (errors (validate_component ds cd)) =
     (radius_errors ds cd \<noteq> [])"
proof -
  have "list_ex (is_kind ''UNAUTHORIZED_RADIUS'') (errors (validate_component ds cd)) =
      (filter (is_kind ''UNAUTHORIZED_RADIUS'') (errors (validate_component ds cd)) \<noteq> [])"
    by (auto simp: filter_empty_conv list_ex_iff)
  then show ?thesis by (simp only: radius_errors_of_validate)
qed

text \<open>
  C7. The detected radii are the matches of the \<open>border-radius\<close> declarations, then the
  pixel values of the Tailwind tokens the text contains, then the bracketed values, then
  the dash-separated pixel tokens. An \<open>UNAUTHORIZED_RADIUS\<close> error is among the errors
  exactly when some radius is detected and none of the detected radii is allowed. A
  component with one allowed and one other radius passes the check, and so does a
  component with no radius at all. Each of the four patterns is then evaluated on
  components of its own: declarations in capitals, with \<open>50%\<close> and \<open>9999px\<close>, and one in
  \<open>em\<close> that is not detected; the Tailwind tokens, in the order of the map; a bracketed
  value, which passes when it is the allowed radius and gives the error when it is not;
  a dash-separated pixel token; all four in one component; and the error message.
\<close>

theorem radius_check_iff:
  "list_ex (is_kind ''UNAUTHORIZED_RADIUS'') (errors (validate_component ds cd)) =
     (detected_radii (full_code_of cd) \<noteq> [] \<and>
      \<not> list_ex (\<lambda>r. r \<in> set (radii_of ds)) (detected_radii (full_code_of cd))) \<and>
   detected_radii (full_code_of cd) =
     re_findall css_radius_re (full_code_of cd) @
     map snd (filter (\<lambda>(token, px). py_in token (full_code_of cd)) tailwind_map) @
     re_findall bracketed_re (full_code_of cd) @
     re_findall classes_with_px_re (full_code_of cd) \<and>
   detected_radii (full_code_of
     (component ''border-radius: 16px; border-radius: 3px;'' ''<p>x</p>'')) =
     [''16px'', ''3px''] \<and>
   list_ex (is_kind ''UNAUTHORIZED_RADIUS'')
     (errors (validate_component (ds_radius ''16px'')
        (component ''border-radius: 16px; border-radius: 3px;'' ''<p>x</p>''))) = False \<and>
   detected_radii (full_code_of (component ''export class A {}'' ''<p>x</p>'')) = [] \<and>
   list_ex (is_kind ''UNAUTHORIZED_RADIUS'')
     (errors (validate_component (ds_radius ''16px'')
        (component ''export class A {}'' ''<p>x</p>''))) = False \<and>
   detected_radii (full_code_of
     (component ''BORDER-RADIUS : 50%; border-radius:9999px; border-radius: 1em'' ''<p>x</p>'')) =
     [''50%'', ''9999px''] \<and>
   detected_radii (full_code_of (component ''export class A {}''
     ''<i class=rounded-sm> <i class=rounded-md> <i class=rounded-full> <i class=rounded-pill>'')) =
     [''4px'', ''8px'', ''12px'', ''9999px'', ''9999px''] \<and>
   detected_radii (full_code_of (component ''export class A {}'' ''<div class=rounded-lg>'')) =
     [''8px'', ''16px''] \<and>
   list_ex (is_kind ''UNAUTHORIZED_RADIUS'')
     (errors (validate_component (ds_radius ''16px'')
        (component ''export class A {}'' ''<div class=rounded-lg>''))) = False \<and>
   detected_radii (full_code_of (component ''export class A {}'' ''<div class=rounded-[12px]>'')) =
     [''8px'', ''12px''] \<and>
   list_ex (is_kind ''UNAUTHORIZED_RADIUS'')
     (errors (validate_component (ds_radius ''12px'')
        (component ''export class A {}'' ''<div class=rounded-[12px]>''))) = False \<and>
   list_ex (is_kind ''UNAUTHORIZED_RADIUS'')
     (errors (validate_component (ds_radius ''16px'')
        (component ''export class A {}'' ''<div class=rounded-[12px]>''))) = True \<and>
   detected_radii (full_code_of (component ''export class A {}'' ''<div class=rounded-20px>'')) =
     [''8px'', ''20px''] \<and>
   list_ex (is_kind ''UNAUTHORIZED_RADIUS'')
     (errors (validate_component (ds_radius ''20px'')
        (component ''export class A {}'' ''<div class=rounded-20px>''))) = False \<and>
   detected_radii (full_code_of (component ''border-radius: 4px;''
     ''<a class=rounded-6px> <a class=rounded-[ 2px ]> <a class=rounded-lg>'')) =
     [''4px'', ''8px'', ''16px'', ''2px'', ''6px''] \<and>
   filter (is_kind ''UNAUTHORIZED_RADIUS'')
     (errors (validate_component (ds_radius ''16px'')
        (component ''border-radius: 3px;'' ''<p>x</p>''))) =
     [''UNAUTHORIZED_RADIUS: Radius used is not in the design system. Allowed: ['16px']'']"
proof -
  have a: "(radius_errors ds cd \<noteq> []) =
     (detected_radii (full_code_of cd) \<noteq> [] \<and>
      \<not> list_ex (\<lambda>r. r \<in> set (radii_of ds)) (detected_radii (full_code_of cd)))"
    by (simp add: radius_errors_def)
  have b: "detected_radii (full_code_of
     (component ''border-radius: 16px; border-radius: 3px;'' ''<p>x</p>'')) =
     [''16px'', ''3px'']"
    by code_simp
  have c: "(radius_errors (ds_radius ''16px'')
     (component ''border-radius: 16px; border-radius: 3px;'' ''<p>x</p>'') \<noteq> []) = False"
    by code_simp
  have d: "detected_radii (full_code_of (component ''export class A {}'' ''<p>x</p>'')) = []"
    by code_simp
  have e: "(radius_errors (ds_radius ''16px'')
     (component ''export class A {}'' ''<p>x</p>'') \<noteq> []) = False"
    by code_simp
  have f: "detected_radii (full_code_of cd) =
     re_findall css_radius_re (full_code_of cd) @
     map snd (filter (\<lambda>(token, px). py_in token (full_code_of cd)) tailwind_map) @
     re_findall bracketed_re (full_code_of cd) @
     re_findall classes_with_px_re (full_code_of cd)"
    by (rule detected_radii_parts)
  have g: "detected_radii (full_code_of
     (component ''BORDER-RADIUS : 50%; border-radius:9999px; border-radius: 1em'' ''<p>x</p>'')) =
     [''50%'', ''9999px'']"
    by code_simp
  have h: "detected_radii (full_code_of (component ''export class A {}''
     ''<i class=rounded-sm> <i class=rounded-md> <i class=rounded-full> <i class=rounded-pill>'')) =
     [''4px'', ''8px'', ''12px'', ''9999px'', ''9999px'']"
    by code_simp
  have i: "detected_radii (full_code_of (component ''export class A {}'' ''<div class=rounded-lg>'')) =
     [''8px'', ''16px'']"
    by code_simp
  have j: "(radius_errors (ds_radius ''16px'')
        (component ''export class A {}'' ''<div class=rounded-lg>'') \<noteq> []) = False"
    by code_simp
  have k: "detected_radii (full_code_of (component ''export class A {}'' ''<div class=rounded-[12px]>'')) =
     [''8px'', ''12px'']"
    by code_simp
  have l: "(radius_errors (ds_radius ''12px'')
        (component ''export class A {}'' ''<div class=rounded-[12px]>'') \<noteq> []) = False"
    by code_simp
  have m: "(radius_errors (ds_radius ''16px'')
        (component ''export class A {}'' ''<div class=rounded-[12px]>'') \<noteq> []) = True"
    by code_simp
  have n: "detected_radii (full_code_of (component ''export class A {}'' ''<div class=rounded-20px>'')) =
     [''8px'', ''20px'']"
    by code_simp
  have o: "(radius_errors (ds_radius ''20px'')
        (component ''export class A {}'' ''<div class=rounded-20px>'') \<noteq> []) = False"
    by code_simp
  have p: "detected_radii (full_code_of (component ''border-radius: 4px;''
     ''<a class=rounded-6px> <a class=rounded-[ 2px ]> <a class=rounded-lg>'')) =
     [''4px'', ''8px'', ''16px'', ''2px'', ''6px'']"
    by code_simp
  have q: "radius_errors (ds_radius ''16px'') (component ''border-radius: 3px;'' ''<p>x</p>'') =
     [''UNAUTHORIZED_RADIUS: Radius used is not in the design system. Allowed: ['16px']'']"
    by code_simp
  show ?thesis
    unfolding radius_kind_of_validate radius_errors_of_validate
    using a b c d e f g h i j k l m n o p q by blast
qed

text \<open>
  C10. The Tailwind tokens are detected by substring containment, and the bare token
  \<open>rounded\<close> stands for \<open>8px\<close>. So whenever the validator's text contains \<open>rounded\<close>
  anywhere, \<open>8px\<close> is among the detected radii, and if \<open>8px\<close> is an allowed radius no
  \<open>UNAUTHORIZED_RADIUS\<close> error is reported.
\<close>

theorem rounded_substring_detects_8px:
  assumes "sublist ''rounded'' (full_code_of cd)"
  shows "''8px'' \<in> set (detected_radii (full_code_of cd)) \<and>
     (''8px'' \<in> set (radii_of ds) \<longrightarrow>
        \<not> list_ex (is_kind ''UNAUTHORIZED_RADIUS'') (errors (validate_component ds cd)))"
proof -
  from assms have "py_in ''rounded'' (full_code_of cd)"
    by (simp add: py_in_iff_sublist)
  then have "(''rounded'', ''8px'') \<in>
      set (filter (\<lambda>(token, px). py_in token (full_code_of cd)) tailwind_map)"
    by (simp add: tailwind_map_def)
  then have "''8px'' \<in>
      snd ` set (filter (\<lambda>(token, px). py_in token (full_code_of cd)) tailwind_map)"
    by force
  then have det: "''8px'' \<in> set (detected_radii (full_code_of cd))"
    by (simp add: detected_radii_parts)
  have "radius_errors ds cd = []" if "''8px'' \<in> set (radii_of ds)"
    using det that by (auto simp: radius_errors_def list_ex_iff)
  then show ?thesis using det by (simp add: radius_kind_of_validate)
qed

theorem rounded_substring_detects_8px_witness:
  "sublist ''rounded'' (full_code_of (component ''surrounded'' ''<b class=rounded-[20px]>'')) \<and>
   ''8px'' \<in> set (detected_radii
      (full_code_of (component ''surrounded'' ''<b class=rounded-[20px]>''))) \<and>
   ''8px'' \<in> set (radii_of (ds_radius ''8px'')) \<and>
   \<not> list_ex (is_kind ''UNAUTHORIZED_RADIUS'')
     (errors (validate_component (ds_radius ''8px'')
        (component ''surrounded'' ''<b class=rounded-[20px]>'')))"
proof -
  have h: "sublist ''rounded''
      (full_code_of (component ''surrounded'' ''<b class=rounded-[20px]>''))"
    unfolding py_in_iff_sublist [symmetric] by code_simp
  have r: "''8px'' \<in> set (radii_of (ds_radius ''8px''))"
    by code_simp
  from rounded_substring_detects_8px [OF h] r h show ?thesis by blast
qed


section \<open>\<open>generator.py\<close>\<close>

text \<open>
  What the text operations of the extraction can raise is a value: \<open>AttributeError\<close>
  for a method called on \<open>None\<close> (a group that took no part in the match),
  \<open>TypeError\<close> for \<open>in\<close> applied to \<open>None\<close>, \<open>ValueError\<close> for unpacking a list of the
  wrong length, and \<open>ClientError\<close> for whatever the call to the model raises.
\<close>

datatype py_error = AttributeError | TypeError | ValueError | ClientError string

subsection \<open>\<open>_clean_output\<close>\<close>

definition clean_output :: "string \<Rightarrow> string" where
  "clean_output text =
     (let lines = split_lines text;
          cleaned_lines = filter (\<lambda>line. \<not> prefix [CHR 0x60, CHR 0x60, CHR 0x60] (strip line)) lines
      in strip (join_lines cleaned_lines))"

subsection \<open>The patterns of the extraction\<close>

text \<open>\<^verbatim>\<open>(?m)^\s*(Attempt\s+\d+\s+failed.*|Auto-correcting\.*|INFO:.*)\s*$\<close>\<close>

definition noise_re :: regex where
  "noise_re =
     Seqs [BolM, Star CSpace,
       Grp 1 (Alts
         (Seqs [Lit ''Attempt'', Plus CSpace, Plus CDigit, Plus CSpace, Lit ''failed'', Star CDot])
         [Seq (Lit ''Auto-correcting'') (Star (CChar CHR ''.'')),
          Seq (Lit ''INFO:'') (Star CDot)]),
       Star CSpace, EolM]"

text \<open>\<^verbatim>\<open>(?i)\(no\s+html.*?\)\<close>\<close>

definition no_html_re :: regex where
  "no_html_re =
     Seqs [LitI ''(no'', Plus CSpace, LitI ''html'', StarLazy CDot, LitI '')'']"

text \<open>\<^verbatim>\<open>-{3,}\s*HTML\s*-{3,}\<close> with \<open>IGNORECASE\<close>\<close>

definition sep_pattern :: regex where
  "sep_pattern =
     Seqs [AtLeast 3 (CCharI CHR ''-''), Star CSpace, LitI ''HTML'', Star CSpace,
       AtLeast 3 (CCharI CHR ''-'')]"

text \<open>\<^verbatim>\<open><(div|section|button|nav|header|footer|a\b)\<close> with \<open>IGNORECASE\<close>\<close>

definition html_tag_re :: regex where
  "html_tag_re =
     Seq (LitI ''<'')
       (Grp 1 (Alts (LitI ''div'')
          [LitI ''section'', LitI ''button'', LitI ''nav'', LitI ''header'', LitI ''footer'',
           Seq (LitI ''a'') WordB]))"

text \<open>\<^verbatim>\<open>(import|@Component|export|import\s+\{)\<close> with \<open>IGNORECASE\<close>\<close>

definition ts_start_re :: regex where
  "ts_start_re =
     Grp 1 (Alts (LitI ''import'')
       [LitI ''@Component'', LitI ''export'',
        Seqs [LitI ''import'', Plus CSpace, LitI ''{'']])"

text \<open>\<^verbatim>\<open><\<close>\<close>

definition html_open_re :: regex where
  "html_open_re = Lit ''<''"

text \<open>\<^verbatim>\<open>\s*([-]{3,}|[B]{3,})\s*$\<close>, where \<open>B\<close> stands for the backquote\<close>

definition trailing_re :: regex where
  "trailing_re =
     Seqs [Star CSpace,
       Grp 1 (Alt (AtLeast 3 (COneOf [CChar CHR ''-''])) (AtLeast 3 (COneOf [CChar (CHR 0x60)]))),
       Star CSpace, Eol]"

text \<open>\<^verbatim>\<open>template\s*:\s*(Q)([\s\S]*?)\1\<close>, where \<open>Q\<close> is the class of the single quote, the
  double quote and the backquote (\<open>MULTILINE\<close>, which changes nothing here)\<close>

definition quote_class :: cclass where
  "quote_class = COneOf [CChar (CHR 0x27), CChar (CHR 0x22), CChar (CHR 0x60)]"

definition tpl_re :: regex where
  "tpl_re =
     Seqs [Lit ''template'', Star CSpace, Lit '':'', Star CSpace,
       Grp 1 (Cls quote_class),
       Grp 2 (StarLazy (COneOf [CSpace, CNoneOf [CSpace]])),
       Bref 1]"

text \<open>\<^verbatim>\<open>,?\s*template\s*:\s*(Q).*?\1\<close> with \<open>DOTALL\<close>\<close>

definition tpl_remove_re :: regex where
  "tpl_remove_re =
     Seqs [Rep (CChar CHR '','') 0 (Some 1) True, Star CSpace, Lit ''template'', Star CSpace,
       Lit '':'', Star CSpace, Grp 1 (Cls quote_class), StarLazy CAny, Bref 1]"

text \<open>\<^verbatim>\<open>,\s*,\<close>\<close>

definition comma_comma_re :: regex where
  "comma_comma_re = Seqs [Lit '','', Star CSpace, Lit '','']"

text \<open>\<^verbatim>\<open>,\s*(\})\<close>\<close>

definition comma_brace_re :: regex where
  "comma_brace_re = Seqs [Lit '','', Star CSpace, Grp 1 (Lit ''}'')]"

text \<open>\<^verbatim>\<open>templateUrl\s*:\s*['\"]\<close>\<close>

definition template_url_start_re :: regex where
  "template_url_start_re =
     Seqs [Lit ''templateUrl'', Star CSpace, Lit '':'', Star CSpace,
       Cls (COneOf [CChar (CHR 0x27), CChar (CHR 0x22)])]"

text \<open>\<^verbatim>\<open>(@Component\s*\(\s*\{)\<close>\<close>

definition component_open_re :: regex where
  "component_open_re =
     Grp 1 (Seqs [Lit ''@Component'', Star CSpace, Lit ''('', Star CSpace, Lit ''{''])"

text \<open>\<^verbatim>\<open>\bngModel\b\<close>\<close>

definition ngmodel_re :: regex where
  "ngmodel_re = Seqs [WordB, Lit ''ngModel'', WordB]"

text \<open>\<^verbatim>\<open>imports\s*:\s*\[[^\]]*\]\<close> and, with the group, \<^verbatim>\<open>imports\s*:\s*\[([^\]]*)\]\<close>\<close>

definition imports_re :: regex where
  "imports_re =
     Seqs [Lit ''imports'', Star CSpace, Lit '':'', Star CSpace, Lit ''['',
       Star (CNoneOf [CChar CHR '']'']), Lit '']'']"

definition imports_group_re :: regex where
  "imports_group_re =
     Seqs [Lit ''imports'', Star CSpace, Lit '':'', Star CSpace, Lit ''['',
       Grp 1 (Star (CNoneOf [CChar CHR '']''])), Lit '']'']"

text \<open>\<^verbatim>\<open>templateUrl\s*:\s*['\"][^'\"]+['\"]\<close>\<close>

definition template_url_re :: regex where
  "template_url_re =
     Seqs [Lit ''templateUrl'', Star CSpace, Lit '':'', Star CSpace,
       Cls (COneOf [CChar (CHR 0x27), CChar (CHR 0x22)]),
       Plus (CNoneOf [CChar (CHR 0x27), CChar (CHR 0x22)]),
       Cls (COneOf [CChar (CHR 0x27), CChar (CHR 0x22)])]"

subsection \<open>The steps of the extraction in \<open>generate_component\<close>\<close>

text \<open>A replacement template that is the empty string, and the template \<open>\1\<close> followed
  by a fixed text (a group that took no part expands to the empty string).\<close>

definition delete :: "string \<Rightarrow> caps \<Rightarrow> string" where
  "delete mt c = []"

definition group1_then :: "string \<Rightarrow> string \<Rightarrow> caps \<Rightarrow> string" where
  "group1_then after mt c = (case group c 1 of None \<Rightarrow> [] | Some g \<Rightarrow> g) @ after"

definition replacement :: "string \<Rightarrow> string \<Rightarrow> caps \<Rightarrow> string" where
  "replacement new mt c = new"

text \<open>Lines 58-59: the injected log lines and the parenthetical notes are removed.\<close>

definition strip_noise :: "string \<Rightarrow> string" where
  "strip_noise cleaned =
     (let cleaned = re_sub noise_re delete cleaned 0;
          cleaned = re_sub no_html_re delete cleaned 0
      in cleaned)"

text \<open>Lines 62-74: the split at the separator, else at the first markup tag, else no
  markup.\<close>

definition split_parts :: "string \<Rightarrow> py_error + string \<times> string" where
  "split_parts cleaned =
     (let parts = re_split1 sep_pattern cleaned
      in if length parts = 2
         then (case parts of [ts_part, html_part] \<Rightarrow> Inr (ts_part, html_part)
                           | _ \<Rightarrow> Inl ValueError)
         else (case re_search html_tag_re cleaned of
                 Some (start, mt, c) \<Rightarrow> Inr (take start cleaned, drop start cleaned)
               | None \<Rightarrow> Inr (cleaned, [])))"

text \<open>Lines 77-81 (and 62-66 of \<open>corrector.py\<close>): the text before the code is dropped.\<close>

definition trim_ts :: "string \<Rightarrow> string" where
  "trim_ts ts_part =
     (case re_search ts_start_re ts_part of
        Some (start, mt, c) \<Rightarrow> drop start ts_part
      | None \<Rightarrow> ts_part)"

definition trim_html :: "string \<Rightarrow> string" where
  "trim_html html_part =
     (case re_search html_open_re html_part of
        Some (start, mt, c) \<Rightarrow> drop start html_part
      | None \<Rightarrow> html_part)"

text \<open>Lines 84-85 (and 69-70 of \<open>corrector.py\<close>).\<close>

definition strip_trailing :: "string \<Rightarrow> string" where
  "strip_trailing code_text = re_sub trailing_re delete (strip code_text) 0"

text \<open>Lines 90-104: an inline template is moved to the markup.\<close>

definition inline_template :: "string \<times> string \<Rightarrow> py_error + string \<times> string" where
  "inline_template th =
     (case th of (ts_code, html_code) \<Rightarrow>
       (case re_search tpl_re ts_code of
          Some (start, mt, c) \<Rightarrow>
            if html_code = [] \<or> strip html_code = [] then
              (case group c 2 of
                 None \<Rightarrow> Inl AttributeError
               | Some g2 \<Rightarrow>
                   (let extracted = strip g2;
                        ts_code = re_sub tpl_remove_re delete ts_code 1;
                        ts_code = re_sub comma_comma_re (replacement '','') ts_code 0;
                        ts_code = re_sub comma_brace_re (group1_then []) ts_code 0;
                        ts_code =
                          (if re_search template_url_start_re ts_code = None
                           then re_sub component_open_re
                                  (group1_then ([CHR 0x0A] @ ''  templateUrl: './app.component.html','')) ts_code 1
                           else ts_code);
                        html_code = extracted
                    in Inr (ts_code, html_code)))
            else Inr (ts_code, html_code)
        | None \<Rightarrow> Inr (ts_code, html_code)))"

text \<open>Line 114.\<close>

definition uses_ngmodel :: "string \<Rightarrow> string \<Rightarrow> string \<Rightarrow> bool" where
  "uses_ngmodel ts_code html_code raw_text =
     (re_search ngmodel_re ts_code \<noteq> None \<or> re_search ngmodel_re html_code \<noteq> None \<or>
      re_search ngmodel_re raw_text \<noteq> None)"

text \<open>Lines 118-123: the import of \<open>FormsModule\<close>.\<close>

definition common_import :: string where
  "common_import = ''import { CommonModule } from '@angular/common';''"

definition forms_import :: string where
  "forms_import = ''import { FormsModule } from '@angular/forms';''"

definition add_forms_import :: "string \<Rightarrow> string" where
  "add_forms_import ts_code =
     (if \<not> py_in ''@angular/forms'' ts_code then
        (if py_in common_import ts_code
         then py_replace common_import (common_import @ [CHR 0x0A] @ forms_import) ts_code
         else forms_import @ [CHR 0x0A] @ ts_code)
      else ts_code)"

text \<open>Lines 126-135: \<open>_add_to_imports\<close>, the replacement function.\<close>

definition add_to_imports :: "string \<Rightarrow> caps \<Rightarrow> py_error + string" where
  "add_to_imports mt c =
     (case group c 1 of
        None \<Rightarrow> Inl TypeError
      | Some inner \<Rightarrow>
          if py_in ''FormsModule'' inner then Inr mt
          else (let new_inner = strip inner;
                    new = (if new_inner = [] then ''FormsModule''
                           else rstrip new_inner @ '', FormsModule'')
                in Inr (''imports: ['' @ new @ '']'')))"

text \<open>\<open>re.sub\<close> with a function as the replacement: what the function raises comes out
  of \<open>sub\<close>.\<close>

fun subst_all :: "(string \<Rightarrow> caps \<Rightarrow> py_error + string) \<Rightarrow> piece list \<Rightarrow> py_error + string" where
  "subst_all fn [] = Inr []"
| "subst_all fn ((pre, mt, c) # ps) =
     (case fn mt c of
        Inl e \<Rightarrow> Inl e
      | Inr rep \<Rightarrow> (case subst_all fn ps of Inl e \<Rightarrow> Inl e | Inr t \<Rightarrow> Inr (pre @ rep @ t)))"

definition re_sub_fn :: "regex \<Rightarrow> (string \<Rightarrow> caps \<Rightarrow> py_error + string) \<Rightarrow> string \<Rightarrow> nat \<Rightarrow> py_error + string" where
  "re_sub_fn r fn s count =
     (case scan r count 0 False None s of
        (ps, left) \<Rightarrow> (case subst_all fn ps of Inl e \<Rightarrow> Inl e | Inr t \<Rightarrow> Inr (t @ left)))"

text \<open>Lines 137-141: \<open>FormsModule\<close> in the \<open>imports\<close> list of the component.\<close>

definition add_forms_listing :: "string \<Rightarrow> py_error + string" where
  "add_forms_listing ts_code =
     (if re_search imports_re ts_code \<noteq> None
      then re_sub_fn imports_group_re add_to_imports ts_code 1
      else Inr (re_sub component_open_re
                  (group1_then ([CHR 0x0A] @ ''  imports: [CommonModule, FormsModule],'')) ts_code 1))"

text \<open>Lines 114-143.\<close>

definition ensure_forms_module :: "string \<Rightarrow> string \<Rightarrow> string \<Rightarrow> py_error + string" where
  "ensure_forms_module ts_code html_code raw_text =
     (if uses_ngmodel ts_code html_code raw_text
      then add_forms_listing (add_forms_import ts_code)
      else Inr ts_code)"

text \<open>Line 149.\<close>

definition normalize_template_url :: "string \<Rightarrow> string" where
  "normalize_template_url ts_code =
     re_sub template_url_re (replacement (''templateUrl: './app.component.html'' @ [CHR 0x27])) ts_code 0"

text \<open>Lines 53-85: the two segments before the normalizations.\<close>

definition segments :: "string \<Rightarrow> py_error + string \<times> string" where
  "segments raw_text =
     (let cleaned = clean_output raw_text;
          cleaned = strip_noise cleaned
      in case split_parts cleaned of
           Inl e \<Rightarrow> Inl e
         | Inr (ts_part, html_part) \<Rightarrow>
             (let ts_code = trim_ts ts_part;
                  html_code = trim_html html_part;
                  ts_code = strip_trailing ts_code;
                  html_code = strip_trailing html_code
              in Inr (ts_code, html_code)))"

text \<open>Lines 52-151 of \<open>generate_component\<close>: from the raw response to the component.\<close>

definition extract_component :: "string \<Rightarrow> py_error + code" where
  "extract_component raw_text =
     (case segments raw_text of
        Inl e \<Rightarrow> Inl e
      | Inr seg \<Rightarrow>
          (case inline_template seg of
             Inl e \<Rightarrow> Inl e
           | Inr (ts_code, html_code) \<Rightarrow>
               (case ensure_forms_module ts_code html_code raw_text of
                  Inl e \<Rightarrow> Inl e
                | Inr ts_code \<Rightarrow>
                    (let ts_code = normalize_template_url ts_code
                     in Inr \<lparr>ts = strip ts_code, html = strip html_code, raw = raw_text\<rparr>))))"


subsection \<open>\<open>generate_component\<close>: the call to the model, then the extraction\<close>

text \<open>
  The model is reached through \<open>client.chat.completions.create\<close>. Its answers are not a
  function of the prompt, so the client is a function of the messages and of a state of
  the world, which it returns changed; it gives the content of the first choice, or the
  error it raised. \<open>SYSTEM_PROMPT\<close> and \<open>CORRECTION_PROMPT\<close> are read from files that are
  not part of the sources: they are parameters, the second as the function that
  \<open>CORRECTION_PROMPT.format(errors=..., original_code=..., design_system=...)\<close> computes.
  Printing to the log is left out.
\<close>

type_synonym message = "string \<times> string"

type_synonym 'w client = "message list \<Rightarrow> 'w \<Rightarrow> (py_error + string) \<times> 'w"

record config =
  system_prompt :: string
  correction_prompt :: "string \<Rightarrow> string \<Rightarrow> string \<Rightarrow> string"
  design :: design_system

definition build_generation_prompt :: "design_system \<Rightarrow> string \<Rightarrow> string" where
  "build_generation_prompt ds user_prompt =
     ''DESIGN SYSTEM (you must strictly follow these tokens):'' @ [CHR 0x0A] @
     tokens_json ds @ [CHR 0x0A, CHR 0x0A] @
     ''ALLOWED COLORS ONLY: '' @ repr_list (allowed_colors ds) @ [CHR 0x0A] @
     ''REQUIRED FONT: '' @ required_font ds @ [CHR 0x0A, CHR 0x0A] @
     ''USER REQUEST: '' @ user_prompt @ [CHR 0x0A, CHR 0x0A] @
     ''Generate a complete Angular standalone component now.''"

definition history_or_empty :: "message list option \<Rightarrow> message list" where
  "history_or_empty conversation_history =
     (case conversation_history of None \<Rightarrow> [] | Some h \<Rightarrow> h)"

definition generate_component ::
  "config \<Rightarrow> 'w client \<Rightarrow> string \<Rightarrow> message list option \<Rightarrow> 'w \<Rightarrow> (py_error + code) \<times> 'w" where
  "generate_component cfg client user_prompt conversation_history w =
     (let messages =
            [(''system'', system_prompt cfg)] @ history_or_empty conversation_history @
            [(''user'', build_generation_prompt (design cfg) user_prompt)]
      in case client messages w of
           (Inl e, w') \<Rightarrow> (Inl e, w')
         | (Inr raw_text, w') \<Rightarrow> (extract_component raw_text, w'))"

section \<open>\<open>corrector.py\<close>\<close>

text \<open>\<^verbatim>\<open>---\s*HTML\s*---\<close>\<close>

definition corr_sep_re :: regex where
  "corr_sep_re = Seqs [Lit ''---'', Star CSpace, Lit ''HTML'', Star CSpace, Lit ''---'']"

text \<open>\<open>s.split(sep, 1)\<close> for a non-empty separator.\<close>

fun split_first :: "string \<Rightarrow> string \<Rightarrow> string list" where
  "split_first sep [] = [[]]"
| "split_first sep (x # t) =
     (if prefix sep (x # t) then [[], drop (length sep) (x # t)]
      else (case split_first sep t of
              [a, b] \<Rightarrow> [x # a, b]
            | _ \<Rightarrow> [x # t]))"

text \<open>Lines 52-72 of \<open>generate_with_correction\<close>: the extraction of the correction loop.
  \<open>prev_html\<close> is \<open>result["html"]\<close>, the markup of the attempt before.\<close>

definition corr_split :: "string \<Rightarrow> string \<Rightarrow> py_error + string \<times> string" where
  "corr_split normalised prev_html =
     (if py_in ''---HTML---'' normalised
      then (case split_first ''---HTML---'' normalised of
              [ts_part, html_part] \<Rightarrow> Inr (ts_part, html_part)
            | _ \<Rightarrow> Inl ValueError)
      else Inr (normalised, prev_html))"

definition corr_extract :: "string \<Rightarrow> string \<Rightarrow> py_error + code" where
  "corr_extract prev_html raw_text =
     (let cleaned = clean_output raw_text;
          normalised = re_sub corr_sep_re (replacement ''---HTML---'') cleaned 0
      in case corr_split normalised prev_html of
           Inl e \<Rightarrow> Inl e
         | Inr (ts_part, html_part) \<Rightarrow>
             (let ts_code = trim_ts ts_part;
                  html_code = trim_html html_part;
                  ts_code = strip_trailing ts_code;
                  html_code = strip_trailing html_code
              in Inr \<lparr>ts = strip ts_code, html = strip html_code, raw = raw_text\<rparr>))"

subsection \<open>\<open>generate_with_correction\<close>\<close>

definition MAX_RETRIES :: nat where
  "MAX_RETRIES = 2"

record attempt_record =
  attempt :: nat
  code_of :: code
  validation_of :: validation

text \<open>The local variables \<open>result\<close>, \<open>validation\<close> and \<open>attempts\<close>.\<close>

record loop_state =
  result :: code
  validation :: validation
  attempts :: "attempt_record list"

text \<open>The returned dictionary; its keys \<open>validation\<close> and \<open>attempts\<close> are the fields
  \<open>final_validation\<close> and \<open>attempts_made\<close>.\<close>

record correction_result =
  final_code :: code
  final_validation :: validation
  attempts_made :: nat
  success :: bool

definition correction_message_of :: "config \<Rightarrow> loop_state \<Rightarrow> string" where
  "correction_message_of cfg st =
     correction_prompt cfg
       (join_lines (map (\<lambda>e. ''- '' @ e) (errors (validation st))))
       (raw (result st))
       (tokens_json (design cfg))"

text \<open>The loop \<open>for attempt in range(MAX_RETRIES)\<close>, over the values of \<open>attempt\<close> still to
  come.\<close>

fun correction_loop ::
  "config \<Rightarrow> 'w client \<Rightarrow> nat list \<Rightarrow> loop_state \<Rightarrow> 'w \<Rightarrow> (py_error + loop_state) \<times> 'w" where
  "correction_loop cfg client [] st w = (Inr st, w)"
| "correction_loop cfg client (a # rest) st w =
     (if valid (validation st) then (Inr st, w)
      else
        (case client [(''system'', system_prompt cfg), (''user'', correction_message_of cfg st)] w of
           (Inl e, w') \<Rightarrow> (Inl e, w')
         | (Inr raw_text, w') \<Rightarrow>
             (case corr_extract (html (result st)) raw_text of
                Inl e \<Rightarrow> (Inl e, w')
              | Inr res \<Rightarrow>
                  (let v = validate_component (design cfg) res
                   in correction_loop cfg client rest
                        \<lparr>result = res, validation = v,
                         attempts = attempts st @
                           [\<lparr>attempt = a + 2, code_of = res, validation_of = v\<rparr>]\<rparr> w'))))"

text \<open>The state of the function when it reaches its \<open>return\<close>.\<close>

definition correction_state ::
  "config \<Rightarrow> 'w client \<Rightarrow> (string \<Rightarrow> message list option \<Rightarrow> 'w \<Rightarrow> (py_error + code) \<times> 'w) \<Rightarrow>
   string \<Rightarrow> message list option \<Rightarrow> 'w \<Rightarrow> (py_error + loop_state) \<times> 'w" where
  "correction_state cfg client generator_fn user_prompt conversation_history w =
     (let conversation_history = Some (history_or_empty conversation_history)
      in case generator_fn user_prompt conversation_history w of
           (Inl e, w') \<Rightarrow> (Inl e, w')
         | (Inr res, w') \<Rightarrow>
             (let v = validate_component (design cfg) res
              in correction_loop cfg client [0..<MAX_RETRIES]
                   \<lparr>result = res, validation = v,
                    attempts = [\<lparr>attempt = 1, code_of = res, validation_of = v\<rparr>]\<rparr> w'))"

definition generate_with_correction ::
  "config \<Rightarrow> 'w client \<Rightarrow> (string \<Rightarrow> message list option \<Rightarrow> 'w \<Rightarrow> (py_error + code) \<times> 'w) \<Rightarrow>
   string \<Rightarrow> message list option \<Rightarrow> 'w \<Rightarrow> (py_error + correction_result) \<times> 'w" where
  "generate_with_correction cfg client generator_fn user_prompt conversation_history w =
     (case correction_state cfg client generator_fn user_prompt conversation_history w of
        (Inl e, w') \<Rightarrow> (Inl e, w')
      | (Inr st, w') \<Rightarrow>
          (Inr \<lparr>final_code = result st, final_validation = validation st,
                attempts_made = length (attempts st), success = valid (validation st)\<rparr>, w'))"

text \<open>A client that counts the calls made to it, and a client that answers from a
  script, for the examples.\<close>

definition counting :: "'w client \<Rightarrow> ('w \<times> nat) client" where
  "counting client messages wn =
     (case wn of (w, n) \<Rightarrow>
        (case client messages w of (r, w') \<Rightarrow> (r, (w', Suc n))))"

definition scripted :: "(string list) client" where
  "scripted messages w =
     (case w of [] \<Rightarrow> (Inl (ClientError ''no answer''), [])
              | r # rs \<Rightarrow> (Inr r, rs))"


section \<open>The extraction never raises\<close>

subsection \<open>Groups that take part in every match\<close>

fun always_groups :: "regex \<Rightarrow> nat set" where
  "always_groups (Seq a b) = always_groups a \<union> always_groups b"
| "always_groups (Alt a b) = always_groups a \<inter> always_groups b"
| "always_groups (Grp g r) = insert g (always_groups r)"
| "always_groups r = {}"

fun frame_groups :: "frame \<Rightarrow> nat set" where
  "frame_groups (R r) = always_groups r"
| "frame_groups (GEnd g s) = {g}"
| "frame_groups (Adv n) = {}"

lemma m_groups:
  "m k p s c = Some (p', s', c') \<Longrightarrow>
   fst ` set c \<union> (\<Union>f\<in>set k. frame_groups f) \<subseteq> fst ` set c'"
proof (induction k p s c rule: m.induct)
  case (8 a b k p s c)
  then show ?case by (auto split: option.splits)
next
  case (10 cc lo hi greedy k p x t c)
  then show ?case by (auto split: if_splits option.splits)
qed (auto split: if_splits option.splits)

lemma match_at_groups:
  "match_at r adv p s = Some (p', s', c) \<Longrightarrow> always_groups r \<subseteq> fst ` set c"
  unfolding match_at_def by (drule m_groups) auto

lemma search_groups:
  "search r adv p s = Some (pre, mt, c, p', s') \<Longrightarrow> always_groups r \<subseteq> fst ` set c"
proof (induction r adv p s arbitrary: pre rule: search.induct)
  case (1 r adv p)
  then show ?case by (auto split: option.splits dest: match_at_groups)
next
  case (2 r adv p x t)
  then show ?case
    by (auto simp: skip1_def split: option.splits dest: match_at_groups)
qed

lemma scan_stop:
  "count \<noteq> 0 \<and> count \<le> n \<Longrightarrow> scan r count n adv p s = ([], s)"
  by (subst scan.simps) simp

lemma scan_none:
  "\<not> (count \<noteq> 0 \<and> count \<le> n) \<Longrightarrow> search r adv p s = None \<Longrightarrow>
   scan r count n adv p s = ([], s)"
  by (subst scan.simps) simp

lemma scan_some:
  "\<not> (count \<noteq> 0 \<and> count \<le> n) \<Longrightarrow> search r adv p s = Some (pre, mt, c, p', s') \<Longrightarrow>
   scan r count n adv p s =
     (case scan r count (n + 1) (mt = []) p' s' of (ps, left) \<Rightarrow> ((pre, mt, c) # ps, left))"
  by (subst scan.simps) auto

lemma scan_induct [case_names stop none some]:
  fixes P :: "regex \<Rightarrow> nat \<Rightarrow> nat \<Rightarrow> bool \<Rightarrow> char option \<Rightarrow> string \<Rightarrow> bool"
  assumes stop: "\<And>r count n adv p s. count \<noteq> 0 \<and> count \<le> n \<Longrightarrow> P r count n adv p s"
    and none: "\<And>r count n adv p s. \<not> (count \<noteq> 0 \<and> count \<le> n) \<Longrightarrow>
        search r adv p s = None \<Longrightarrow> P r count n adv p s"
    and some: "\<And>r count n adv p s pre mt c p' s'. \<not> (count \<noteq> 0 \<and> count \<le> n) \<Longrightarrow>
        search r adv p s = Some (pre, mt, c, p', s') \<Longrightarrow>
        P r count (n + 1) (mt = []) p' s' \<Longrightarrow> P r count n adv p s"
  shows "P r count n adv p s"
proof (induction r count n adv p s rule: scan.induct)
  case (1 r count n adv p s)
  show ?case
  proof (cases "count \<noteq> 0 \<and> count \<le> n")
    case True
    then show ?thesis by (rule stop)
  next
    case False
    show ?thesis
    proof (cases "search r adv p s")
      case None
      with False show ?thesis by (rule none)
    next
      case (Some res)
      obtain pre mt c p' s' where res: "res = (pre, mt, c, p', s')"
        by (cases res) auto
      have "P r count (n + 1) (mt = []) p' s'"
        by (rule "1.IH" [OF False Some]) (simp_all add: res)
      with False Some res show ?thesis by (auto intro: some)
    qed
  qed
qed

lemma scan_groups:
  "scan r count n adv p s = (ps, left) \<Longrightarrow> (pre, mt, c) \<in> set ps \<Longrightarrow>
   always_groups r \<subseteq> fst ` set c"
proof (induction r count n adv p s arbitrary: ps left rule: scan_induct)
  case (stop r count n adv p s)
  then show ?case by (simp add: scan_stop)
next
  case (none r count n adv p s)
  then show ?case by (simp add: scan_none)
next
  case (some r count n adv p s pre1 mt1 c1 p' s')
  obtain ps1 left1 where rec: "scan r count (n + 1) (mt1 = []) p' s' = (ps1, left1)"
    by (cases "scan r count (n + 1) (mt1 = []) p' s'")
  with some.prems(1) some.hyps have ps: "ps = (pre1, mt1, c1) # ps1"
    by (simp add: scan_some)
  from some.hyps(2) have here: "always_groups r \<subseteq> fst ` set c1"
    by (auto dest: search_groups)
  from some.prems(2) ps consider "(pre, mt, c) = (pre1, mt1, c1)" | "(pre, mt, c) \<in> set ps1"
    by auto
  then show ?case
  proof cases
    case 1
    with here show ?thesis by simp
  next
    case 2
    from some.IH [OF rec 2] show ?thesis .
  qed
qed

lemma group_Some: "g \<in> fst ` set c \<Longrightarrow> \<exists>t. group c g = Some t"
  by (cases "map_of c g") (auto simp: group_def map_of_eq_None_iff)

lemma re_search_groups:
  "re_search r s = Some (start, mt, c) \<Longrightarrow> g \<in> always_groups r \<Longrightarrow> \<exists>t. group c g = Some t"
  by (auto simp: re_search_def dest!: search_groups intro!: group_Some)


subsection \<open>No step of the extraction raises\<close>

lemma split_parts_total: "\<exists>r. split_parts cleaned = Inr r"
  by (auto simp: split_parts_def re_split1_def Let_def split: option.splits prod.splits)

lemma tpl_re_group2: "2 \<in> always_groups tpl_re"
  by (simp add: tpl_re_def)

lemma inline_template_total: "\<exists>r. inline_template th = Inr r"
proof (cases th)
  case (Pair ts_code html_code)
  show ?thesis
  proof (cases "re_search tpl_re ts_code")
    case None
    with Pair show ?thesis by (simp add: inline_template_def)
  next
    case (Some res)
    obtain start mt c where res: "res = (start, mt, c)" by (cases res)
    from re_search_groups [OF Some [unfolded res] tpl_re_group2]
    obtain g2 where "group c 2 = Some g2" by blast
    with Pair Some res show ?thesis by (simp add: inline_template_def Let_def)
  qed
qed

lemma add_to_imports_total: "group c 1 = Some inner \<Longrightarrow> \<exists>t. add_to_imports mt c = Inr t"
  by (simp add: add_to_imports_def Let_def)

lemma subst_all_total:
  "list_all (\<lambda>(pre, mt, c). \<exists>inner. group c 1 = Some inner) ps \<Longrightarrow>
   \<exists>t. subst_all add_to_imports ps = Inr t"
proof (induction ps)
  case Nil
  then show ?case by simp
next
  case (Cons piece ps)
  obtain pre mt c where piece: "piece = (pre, mt, c)" by (cases piece)
  with Cons.prems obtain inner where "group c 1 = Some inner" by auto
  then obtain rep where rep: "add_to_imports mt c = Inr rep"
    using add_to_imports_total by blast
  from Cons obtain t where "subst_all add_to_imports ps = Inr t" by auto
  with piece rep show ?case by simp
qed

lemma imports_group_re_group1: "1 \<in> always_groups imports_group_re"
  by (simp add: imports_group_re_def)

lemma add_forms_listing_total: "\<exists>t. add_forms_listing ts_code = Inr t"
proof (cases "re_search imports_re ts_code \<noteq> None")
  case False
  then show ?thesis by (simp add: add_forms_listing_def)
next
  case True
  obtain ps left where sc: "scan imports_group_re 1 0 False None ts_code = (ps, left)"
    by (cases "scan imports_group_re 1 0 False None ts_code")
  have "list_all (\<lambda>(pre, mt, c). \<exists>inner. group c 1 = Some inner) ps"
    unfolding list_all_iff
  proof clarify
    fix pre mt c
    assume "(pre, mt, c) \<in> set ps"
    from scan_groups [OF sc this] imports_group_re_group1
    show "\<exists>inner. group c 1 = Some inner" by (auto intro: group_Some)
  qed
  then obtain t where "subst_all add_to_imports ps = Inr t"
    using subst_all_total by blast
  with True sc show ?thesis by (simp add: add_forms_listing_def re_sub_fn_def)
qed

lemma ensure_forms_module_total: "\<exists>t. ensure_forms_module ts_code html_code raw_text = Inr t"
  by (simp add: ensure_forms_module_def add_forms_listing_total)

lemma segments_total: "\<exists>t h. segments raw_text = Inr (t, h)"
proof -
  obtain a b where "split_parts (strip_noise (clean_output raw_text)) = Inr (a, b)"
    using split_parts_total by (metis surj_pair)
  then show ?thesis by (simp add: segments_def Let_def)
qed

lemma extract_component_total:
  "\<exists>cd. extract_component raw_text = Inr cd \<and> raw cd = raw_text"
proof -
  obtain t h where seg: "segments raw_text = Inr (t, h)"
    using segments_total by blast
  obtain t1 h1 where inl: "inline_template (t, h) = Inr (t1, h1)"
    using inline_template_total by (metis surj_pair)
  obtain t2 where ens: "ensure_forms_module t1 h1 raw_text = Inr t2"
    using ensure_forms_module_total by blast
  from seg inl ens show ?thesis by (simp add: extract_component_def Let_def)
qed

lemma split_first_found:
  "sep \<noteq> [] \<Longrightarrow> py_in sep s \<Longrightarrow> \<exists>a b. split_first sep s = [a, b]"
  by (induction s) (auto split: list.splits)

lemma corr_split_total: "\<exists>r. corr_split normalised prev_html = Inr r"
proof (cases "py_in ''---HTML---'' normalised")
  case True
  then obtain a b where "split_first ''---HTML---'' normalised = [a, b]"
    using split_first_found [of "''---HTML---''" normalised] by auto
  with True show ?thesis by (simp add: corr_split_def)
next
  case False
  then show ?thesis by (simp add: corr_split_def)
qed

lemma corr_extract_total:
  "\<exists>cd. corr_extract prev_html raw_text = Inr cd \<and> raw cd = raw_text"
proof -
  obtain a b where "corr_split
      (re_sub corr_sep_re (replacement ''---HTML---'') (clean_output raw_text) 0) prev_html =
      Inr (a, b)"
    using corr_split_total by (metis surj_pair)
  then show ?thesis by (simp add: corr_extract_def Let_def)
qed

text \<open>
  C9. For every raw response, the extraction of \<open>generate_component\<close> returns a
  component, and so does the extraction of the correction loop, whatever the markup of
  the attempt before: none of the places that could raise (a group that took no part in
  a match, the unpacking of a split) is reached, and the matcher and the loops over it
  are total functions. A response with no marker at all comes out whole as the primary
  source, with no markup.
\<close>

theorem extraction_never_raises:
  "(\<exists>cd. extract_component raw_text = Inr cd \<and> raw cd = raw_text) \<and>
   (\<exists>cd. corr_extract prev_html raw_text = Inr cd \<and> raw cd = raw_text) \<and>
   extract_component ''hello'' = Inr \<lparr>ts = ''hello'', html = [], raw = ''hello''\<rparr> \<and>
   corr_extract ''<p>old</p>'' ''hello'' =
     Inr \<lparr>ts = ''hello'', html = ''<p>old</p>'', raw = ''hello''\<rparr>"
proof -
  have "extract_component ''hello'' = Inr \<lparr>ts = ''hello'', html = [], raw = ''hello''\<rparr>"
    by code_simp
  moreover have "corr_extract ''<p>old</p>'' ''hello'' =
     Inr \<lparr>ts = ''hello'', html = ''<p>old</p>'', raw = ''hello''\<rparr>"
    by code_simp
  ultimately show ?thesis
    using extract_component_total [of raw_text] corr_extract_total [of prev_html raw_text]
    by blast
qed


subsection \<open>The invariant of the correction loop\<close>

lemma corr_extract_raw: "corr_extract prev raw_text = Inr res \<Longrightarrow> raw res = raw_text"
  by (auto simp: corr_extract_def Let_def split: sum.splits prod.splits)

definition loop_inv :: "config \<Rightarrow> loop_state \<Rightarrow> bool" where
  "loop_inv cfg st =
     (attempts st \<noteq> [] \<and>
      result st = code_of (last (attempts st)) \<and>
      validation st = validation_of (last (attempts st)) \<and>
      map attempt (attempts st) = [1..<Suc (length (attempts st))] \<and>
      list_all (\<lambda>a. \<not> valid (validation_of a)) (butlast (attempts st)) \<and>
      list_all (\<lambda>a. validation_of a = validate_component (design cfg) (code_of a)) (attempts st) \<and>
      list_all (\<lambda>(a, b). corr_extract (html (code_of a)) (raw (code_of b)) = Inr (code_of b))
        (zip (attempts st) (tl (attempts st))))"

lemma zip_tl_snoc:
  "xs \<noteq> [] \<Longrightarrow> zip (xs @ [y]) (tl xs @ [y]) = zip xs (tl xs) @ [(last xs, y)]"
  by (induction xs) (auto simp: neq_Nil_conv)

lemma list_all_butlast_last:
  "xs \<noteq> [] \<Longrightarrow> list_all P (butlast xs) \<Longrightarrow> P (last xs) \<Longrightarrow> list_all P xs"
  by (induction xs) (auto split: if_splits)

lemma loop_inv_step:
  assumes inv: "loop_inv cfg st" and nv: "\<not> valid (validation st)"
    and ex: "corr_extract (html (result st)) raw_text = Inr res"
    and len: "length (attempts st) = Suc k"
  shows "loop_inv cfg \<lparr>result = res, validation = validate_component (design cfg) res,
     attempts = attempts st @ [\<lparr>attempt = k + 2, code_of = res,
        validation_of = validate_component (design cfg) res\<rparr>]\<rparr>"
proof -
  from inv have ne: "attempts st \<noteq> []" by (simp add: loop_inv_def)
  from ex have r: "raw res = raw_text" by (rule corr_extract_raw)
  from inv nv have "\<not> valid (validation_of (last (attempts st)))"
    by (simp add: loop_inv_def)
  with inv ne have all: "list_all (\<lambda>a. \<not> valid (validation_of a)) (attempts st)"
    by (auto simp: loop_inv_def intro: list_all_butlast_last)
  from inv ex r have pair:
    "corr_extract (html (code_of (last (attempts st)))) (raw res) = Inr res"
    by (simp add: loop_inv_def)
  from inv len have num: "map attempt (attempts st) @ [k + 2] = [1..<Suc (Suc (Suc k))]"
    by (simp add: loop_inv_def)
  show ?thesis
    using inv all pair num ne len
    by (simp add: loop_inv_def zip_tl_snoc butlast_append)
qed

lemma loop_preserves:
  "correction_loop cfg client xs st w = (Inr st', w') \<Longrightarrow> xs = [k..<n] \<Longrightarrow>
   loop_inv cfg st \<Longrightarrow> length (attempts st) = Suc k \<Longrightarrow>
   loop_inv cfg st' \<and> length (attempts st) \<le> length (attempts st') \<and>
   length (attempts st') \<le> Suc k + length xs"
proof (induction xs arbitrary: st w k)
  case Nil
  then show ?case by simp
next
  case (Cons a rest)
  from Cons.prems(2) [symmetric] have a: "a = k" and rest: "rest = [Suc k..<n]"
    by (auto simp: upt_eq_Cons_conv)
  show ?case
  proof (cases "valid (validation st)")
    case True
    with Cons.prems(1) have "st' = st" by simp
    with Cons.prems(3,4) show ?thesis by simp
  next
    case False
    from Cons.prems(1) False obtain raw_text w1 res where
      cl: "client [(''system'', system_prompt cfg), (''user'', correction_message_of cfg st)] w = (Inr raw_text, w1)"
      and ex: "corr_extract (html (result st)) raw_text = Inr res"
      and rec: "correction_loop cfg client rest
          \<lparr>result = res, validation = validate_component (design cfg) res,
           attempts = attempts st @ [\<lparr>attempt = a + 2, code_of = res,
              validation_of = validate_component (design cfg) res\<rparr>]\<rparr> w1 = (Inr st', w')"
      by (auto simp: Let_def split: prod.splits sum.splits)
    let ?st1 = "\<lparr>result = res, validation = validate_component (design cfg) res,
           attempts = attempts st @ [\<lparr>attempt = a + 2, code_of = res,
              validation_of = validate_component (design cfg) res\<rparr>]\<rparr>"
    have inv1: "loop_inv cfg ?st1"
      unfolding a by (rule loop_inv_step [OF Cons.prems(3) False ex Cons.prems(4)])
    have len1: "length (attempts ?st1) = Suc (Suc k)" using Cons.prems(4) by simp
    from Cons.IH [OF rec rest inv1 len1] Cons.prems(4) show ?thesis by simp
  qed
qed

lemma initial_inv:
  "loop_inv cfg \<lparr>result = res, validation = validate_component (design cfg) res,
     attempts = [\<lparr>attempt = 1, code_of = res,
        validation_of = validate_component (design cfg) res\<rparr>]\<rparr>"
  by (simp add: loop_inv_def)

lemma correction_state_inv:
  assumes "correction_state cfg client generator_fn user_prompt history w = (Inr st, w')"
  shows "loop_inv cfg st \<and> 1 \<le> length (attempts st) \<and>
     length (attempts st) \<le> 1 + MAX_RETRIES"
proof -
  from assms obtain res w1 where
    loop: "correction_loop cfg client [0..<MAX_RETRIES]
        \<lparr>result = res, validation = validate_component (design cfg) res,
         attempts = [\<lparr>attempt = 1, code_of = res,
            validation_of = validate_component (design cfg) res\<rparr>]\<rparr> w1 = (Inr st, w')"
    by (auto simp: correction_state_def Let_def split: prod.splits sum.splits)
  from loop_preserves [OF loop refl initial_inv] show ?thesis by simp
qed

subsection \<open>Counting the calls\<close>

lemma counting_apply:
  "counting client messages (w, n) = (case client messages w of (r, w') \<Rightarrow> (r, (w', Suc n)))"
  by (simp add: counting_def)

lemma counting_loop_le:
  "correction_loop cfg (counting client) xs st (w, c) = (r, (w', c')) \<Longrightarrow>
   c \<le> c' \<and> c' \<le> c + length xs"
proof (induction xs arbitrary: st w c)
  case Nil
  then show ?case by simp
next
  case (Cons a rest)
  show ?case
  proof (cases "valid (validation st)")
    case True
    with Cons.prems show ?thesis by simp
  next
    case False
    obtain r1 w1 where cl:
      "client [(''system'', system_prompt cfg), (''user'', correction_message_of cfg st)] w = (r1, w1)"
      by (cases "client [(''system'', system_prompt cfg), (''user'', correction_message_of cfg st)] w")
    show ?thesis
    proof (cases r1)
      case (Inl e)
      with Cons.prems False cl show ?thesis by (simp add: counting_apply)
    next
      case (Inr raw_text)
      show ?thesis
      proof (cases "corr_extract (html (result st)) raw_text")
        case (Inl e)
        with Cons.prems False cl Inr show ?thesis by (simp add: counting_apply)
      next
        case res: (Inr res)
        with Cons.prems False cl Inr have
          "correction_loop cfg (counting client) rest
             \<lparr>result = res, validation = validate_component (design cfg) res,
              attempts = attempts st @ [\<lparr>attempt = a + 2, code_of = res,
                 validation_of = validate_component (design cfg) res\<rparr>]\<rparr> (w1, Suc c) =
           (r, (w', c'))"
          by (simp add: counting_apply Let_def)
        from Cons.IH [OF this] show ?thesis by simp
      qed
    qed
  qed
qed

lemma counting_loop_eq:
  "correction_loop cfg (counting client) xs st (w, c) = (Inr st', (w', c')) \<Longrightarrow>
   c' + length (attempts st) = c + length (attempts st')"
proof (induction xs arbitrary: st w c)
  case Nil
  then show ?case by simp
next
  case (Cons a rest)
  show ?case
  proof (cases "valid (validation st)")
    case True
    with Cons.prems show ?thesis by simp
  next
    case False
    from Cons.prems False obtain raw_text w1 res where
      rec: "correction_loop cfg (counting client) rest
          \<lparr>result = res, validation = validate_component (design cfg) res,
           attempts = attempts st @ [\<lparr>attempt = a + 2, code_of = res,
              validation_of = validate_component (design cfg) res\<rparr>]\<rparr> (w1, Suc c) =
        (Inr st', (w', c'))"
      by (auto simp: counting_apply Let_def split: prod.splits sum.splits)
    from Cons.IH [OF rec] show ?thesis by simp
  qed
qed

lemma counting_generate:
  "generate_component cfg (counting client) user_prompt history (w, c) = (r, (w', c')) \<Longrightarrow>
   c' = Suc c"
  by (auto simp: generate_component_def counting_apply Let_def split: prod.splits sum.splits)

lemma counting_state_le:
  assumes "correction_state cfg (counting client) (generate_component cfg (counting client))
      user_prompt history (w, 0) = (r, (w', calls))"
  shows "1 \<le> calls \<and> calls \<le> 1 + MAX_RETRIES"
proof -
  let ?h = "Some (history_or_empty history)"
  obtain r1 w1 c1 where g:
    "generate_component cfg (counting client) user_prompt ?h (w, 0) = (r1, (w1, c1))"
    by (metis surj_pair)
  then have c1: "c1 = 1" by (auto dest: counting_generate)
  show ?thesis
  proof (cases r1)
    case (Inl e)
    with assms g c1 show ?thesis by (simp add: correction_state_def)
  next
    case (Inr res)
    with assms g c1 have "correction_loop cfg (counting client) [0..<MAX_RETRIES]
        \<lparr>result = res, validation = validate_component (design cfg) res,
         attempts = [\<lparr>attempt = 1, code_of = res,
            validation_of = validate_component (design cfg) res\<rparr>]\<rparr> (w1, 1) = (r, (w', calls))"
      by (simp add: correction_state_def Let_def)
    from counting_loop_le [OF this] show ?thesis by simp
  qed
qed

lemma counting_state_eq:
  assumes "correction_state cfg (counting client) (generate_component cfg (counting client))
      user_prompt history (w, 0) = (Inr st, (w', calls))"
  shows "calls = length (attempts st)"
proof -
  let ?h = "Some (history_or_empty history)"
  from assms obtain res w1 c1 where
    g: "generate_component cfg (counting client) user_prompt ?h (w, 0) = (Inr res, (w1, c1))"
    and loop: "correction_loop cfg (counting client) [0..<MAX_RETRIES]
        \<lparr>result = res, validation = validate_component (design cfg) res,
         attempts = [\<lparr>attempt = 1, code_of = res,
            validation_of = validate_component (design cfg) res\<rparr>]\<rparr> (w1, c1) =
        (Inr st, (w', calls))"
    by (auto simp: correction_state_def Let_def split: prod.splits sum.splits)
  from g have "c1 = 1" by (auto dest: counting_generate)
  with counting_loop_eq [OF loop] show ?thesis by simp
qed


subsection \<open>A run returns when the model answers\<close>

text \<open>
  The loop is a recursion over the values of \<open>range(MAX_RETRIES)\<close> and each extraction
  returns, so a run can only end without a result when a call to the model raises: if
  every call gives an answer, the run returns.
\<close>

lemma correction_loop_returns:
  assumes ok: "\<And>messages w. \<exists>answer w'. client messages w = (Inr answer, w')"
  shows "\<exists>st' w'. correction_loop cfg client xs st w = (Inr st', w')"
proof (induction xs arbitrary: st w)
  case Nil
  then show ?case by simp
next
  case (Cons a rest)
  show ?case
  proof (cases "valid (validation st)")
    case True
    then show ?thesis by simp
  next
    case False
    from ok obtain answer w1 where
      cl: "client [(''system'', system_prompt cfg), (''user'', correction_message_of cfg st)] w =
        (Inr answer, w1)"
      by blast
    from corr_extract_total obtain res where
      ex: "corr_extract (html (result st)) answer = Inr res" by blast
    from Cons.IH obtain st' w' where
      "correction_loop cfg client rest
         \<lparr>result = res, validation = validate_component (design cfg) res,
          attempts = attempts st @ [\<lparr>attempt = a + 2, code_of = res,
             validation_of = validate_component (design cfg) res\<rparr>]\<rparr> w1 = (Inr st', w')"
      by blast
    with False cl ex show ?thesis by (simp add: Let_def)
  qed
qed

lemma correction_state_returns:
  assumes ok: "\<And>messages w. \<exists>answer w'. client messages w = (Inr answer, w')"
  shows "\<exists>st w'. correction_state cfg client (generate_component cfg client)
     user_prompt history w = (Inr st, w')"
proof -
  let ?h = "Some (history_or_empty history)"
  from ok obtain answer w1 where
    "client ([(''system'', system_prompt cfg)] @ history_or_empty ?h @
       [(''user'', build_generation_prompt (design cfg) user_prompt)]) w = (Inr answer, w1)"
    by blast
  moreover from extract_component_total obtain res where
    "extract_component answer = Inr res" by blast
  ultimately have g: "generate_component cfg client user_prompt ?h w = (Inr res, w1)"
    by (simp add: generate_component_def Let_def)
  have "\<exists>st w'. correction_loop cfg client [0..<MAX_RETRIES]
       \<lparr>result = res, validation = validate_component (design cfg) res,
        attempts = [\<lparr>attempt = 1, code_of = res,
           validation_of = validate_component (design cfg) res\<rparr>]\<rparr> w1 = (Inr st, w')"
    by (rule correction_loop_returns) (rule ok)
  with g show ?thesis by (simp add: correction_state_def Let_def)
qed


subsection \<open>A run of three attempts\<close>

text \<open>
  The example of the theorems below: the model answers a component without the font,
  then a bare markup fragment, then an open parenthesis. All three attempts are invalid,
  with one, three and four errors.
\<close>

definition example_config :: config where
  "example_config =
     \<lparr>system_prompt = ''You write Angular components.'',
      correction_prompt = (\<lambda>errs original_code tokens. ''Fix: '' @ errs @ original_code @ tokens),
      design = ds_white\<rparr>"

definition example_answers :: "string list" where
  "example_answers = [''@Component export class'', ''<div>x</div>'', ''('']"

definition example_attempt :: "nat \<Rightarrow> string \<Rightarrow> string \<Rightarrow> attempt_record" where
  "example_attempt n t r =
     \<lparr>attempt = n, code_of = \<lparr>ts = t, html = [], raw = r\<rparr>,
      validation_of = validate_component ds_white \<lparr>ts = t, html = [], raw = r\<rparr>\<rparr>"

definition example_state :: loop_state where
  "example_state =
     \<lparr>result = \<lparr>ts = ''('', html = [], raw = ''(''\<rparr>,
      validation = validate_component ds_white \<lparr>ts = ''('', html = [], raw = ''(''\<rparr>,
      attempts =
        [example_attempt 1 ''@Component export class'' ''@Component export class'',
         example_attempt 2 ''<div>x</div>'' ''<div>x</div>'',
         example_attempt 3 ''('' ''('']\<rparr>"

lemma example_run:
  "correction_state example_config scripted (generate_component example_config scripted)
     ''a button'' None example_answers = (Inr example_state, [])"
  by code_simp

lemma example_run_counted:
  "correction_state example_config (counting scripted)
     (generate_component example_config (counting scripted))
     ''a button'' None (example_answers, 0) = (Inr example_state, ([], 3))"
  by code_simp

lemma example_error_counts:
  "map (\<lambda>a. error_count (validation_of a)) (attempts example_state) = [1, 3, 4]"
  by code_simp


lemma valid_iff_no_errors:
  "valid (validate_component ds cd) = (error_count (validate_component ds cd) = 0)"
  by (simp add: validate_component_def Let_def)

subsection \<open>The bounds of the correction loop\<close>

text \<open>
  C3. Take any client, counted, and \<open>generate_component\<close> over it as the generator, as
  \<open>main.py\<close> wires them. Whatever the outcome, between one and \<open>1 + MAX_RETRIES\<close> calls
  are made, and \<open>MAX_RETRIES\<close> is 2. When the run returns: the number of attempts is at
  least 1 and at most \<open>1 + MAX_RETRIES\<close>, and it is the \<open>attempts\<close> value returned; the
  attempts are numbered 1, 2, ... without a gap; the number of calls made is the number
  of attempts; and every attempt but the last is invalid, so each correction call
  followed an invalid validation (a valid first attempt means exactly one call).
\<close>

theorem orchestrator_bounds:
  assumes "correction_state cfg (counting client) (generate_component cfg (counting client))
      user_prompt history (w, 0) = (Inr st, (w', calls))"
  shows "1 \<le> length (attempts st) \<and> length (attempts st) \<le> 1 + MAX_RETRIES \<and>
     MAX_RETRIES = 2 \<and>
     map_sum id attempts_made
       (fst (generate_with_correction cfg (counting client)
          (generate_component cfg (counting client)) user_prompt history (w, 0))) =
       Inr (length (attempts st)) \<and>
     map attempt (attempts st) = [1..<Suc (length (attempts st))] \<and>
     calls = length (attempts st) \<and>
     1 \<le> snd (snd (correction_state cfg (counting client)
        (generate_component cfg (counting client)) user_prompt history (w, 0))) \<and>
     snd (snd (correction_state cfg (counting client)
        (generate_component cfg (counting client)) user_prompt history (w, 0))) \<le>
       1 + MAX_RETRIES \<and>
     list_all (\<lambda>a. \<not> valid (validation_of a)) (butlast (attempts st)) \<and>
     (if valid (validation_of (hd (attempts st))) then calls = 1 else 1 \<le> calls)"
proof -
  from correction_state_inv [OF assms] have inv: "loop_inv cfg st"
    and lo: "1 \<le> length (attempts st)" and hi: "length (attempts st) \<le> 1 + MAX_RETRIES"
    by simp_all
  have calls: "calls = length (attempts st)" by (rule counting_state_eq [OF assms])
  have any: "1 \<le> snd (snd (correction_state cfg (counting client)
        (generate_component cfg (counting client)) user_prompt history (w, 0))) \<and>
     snd (snd (correction_state cfg (counting client)
        (generate_component cfg (counting client)) user_prompt history (w, 0))) \<le>
       1 + MAX_RETRIES"
    using counting_state_le [of cfg client user_prompt history w] assms by simp
  have ret: "map_sum id attempts_made
       (fst (generate_with_correction cfg (counting client)
          (generate_component cfg (counting client)) user_prompt history (w, 0))) =
       Inr (length (attempts st))"
    using assms by (simp add: generate_with_correction_def)
  from inv have num: "map attempt (attempts st) = [1..<Suc (length (attempts st))]"
    and bl: "list_all (\<lambda>a. \<not> valid (validation_of a)) (butlast (attempts st))"
    by (simp_all add: loop_inv_def)
  have first: "calls = 1" if v: "valid (validation_of (hd (attempts st)))"
  proof (rule ccontr)
    assume "calls \<noteq> 1"
    with calls lo obtain a b rest where "attempts st = a # b # rest"
      by (cases "attempts st"; cases "tl (attempts st)") auto
    with bl v show False by simp
  qed
  from lo hi ret num calls any bl first show ?thesis
    by (simp add: MAX_RETRIES_def)
qed

theorem orchestrator_bounds_witness:
  "correction_state example_config (counting scripted)
      (generate_component example_config (counting scripted))
      ''a button'' None (example_answers, 0) = (Inr example_state, ([], 3)) \<and>
   length (attempts example_state) = 3 \<and> MAX_RETRIES = 2 \<and>
   map attempt (attempts example_state) = [1, 2, 3] \<and>
   list_all (\<lambda>a. \<not> valid (validation_of a)) (butlast (attempts example_state))"
proof -
  have len: "length (attempts example_state) = 3"
    by (simp add: example_state_def)
  from orchestrator_bounds [OF example_run_counted] len
  have "map attempt (attempts example_state) = [1..<Suc 3]"
    and "MAX_RETRIES = 2"
    and "list_all (\<lambda>a. \<not> valid (validation_of a)) (butlast (attempts example_state))"
    by simp_all
  moreover have "[1..<Suc 3] = [1, 2, 3::nat]" by code_simp
  ultimately show ?thesis using example_run_counted len by simp
qed

subsection \<open>What is returned\<close>

text \<open>
  C4. Whatever the client and the generator, when the run returns, the returned
  \<open>final_code\<close> and validation are those of the last recorded attempt, whose number is
  the number of attempts; \<open>success\<close> is the \<open>valid\<close> flag of that validation; and that
  validation is what the validator gave for the last artifact, errors included. In the
  example the budget is used up, the first attempt had one error and the last has four:
  the last is returned, with its four errors.
\<close>

theorem final_is_last_attempt:
  assumes "correction_state cfg client generator_fn user_prompt history w = (Inr st, w')"
  shows "generate_with_correction cfg client generator_fn user_prompt history w =
     (Inr \<lparr>final_code = code_of (last (attempts st)),
           final_validation = validation_of (last (attempts st)),
           attempts_made = length (attempts st),
           success = valid (validation_of (last (attempts st)))\<rparr>, w') \<and>
     attempt (last (attempts st)) = length (attempts st) \<and>
     validation_of (last (attempts st)) =
       validate_component (design cfg) (code_of (last (attempts st)))"
proof -
  from correction_state_inv [OF assms] have inv: "loop_inv cfg st" by simp
  then have ne: "attempts st \<noteq> []" by (simp add: loop_inv_def)
  from inv have "map attempt (attempts st) = [1..<Suc (length (attempts st))]"
    by (simp add: loop_inv_def)
  then have "last (map attempt (attempts st)) = last [1..<Suc (length (attempts st))]"
    by (simp only:)
  with ne have num: "attempt (last (attempts st)) = length (attempts st)"
    by (simp add: last_map last_upt del: upt_Suc)
  from inv ne have "validation_of (last (attempts st)) =
      validate_component (design cfg) (code_of (last (attempts st)))"
    by (simp add: loop_inv_def list_all_iff)
  with inv num assms show ?thesis
    by (simp add: generate_with_correction_def loop_inv_def)
qed

theorem final_is_last_attempt_witness:
  "correction_state example_config scripted (generate_component example_config scripted)
     ''a button'' None example_answers = (Inr example_state, []) \<and>
   generate_with_correction example_config scripted
     (generate_component example_config scripted) ''a button'' None example_answers =
     (Inr \<lparr>final_code = \<lparr>ts = ''('', html = [], raw = ''(''\<rparr>,
           final_validation = validate_component ds_white \<lparr>ts = ''('', html = [], raw = ''(''\<rparr>,
           attempts_made = 3, success = False\<rparr>, []) \<and>
   map (\<lambda>a. error_count (validation_of a)) (attempts example_state) = [1, 3, 4] \<and>
   error_count (validate_component ds_white \<lparr>ts = ''('', html = [], raw = ''(''\<rparr>) = 4"
proof -
  have l: "last (attempts example_state) = example_attempt 3 ''('' ''(''"
    by (simp add: example_state_def)
  have len: "length (attempts example_state) = 3"
    by (simp add: example_state_def)
  have ec: "map (\<lambda>a. error_count (validation_of a)) (attempts example_state) = [1, 3, 4]"
    by (rule example_error_counts)
  then have e4: "error_count (validate_component ds_white \<lparr>ts = ''('', html = [], raw = ''(''\<rparr>) = 4"
    by (simp add: example_state_def example_attempt_def)
  then have nv: "valid (validate_component ds_white \<lparr>ts = ''('', html = [], raw = ''(''\<rparr>) = False"
    by (simp add: valid_iff_no_errors)
  from final_is_last_attempt [OF example_run] l len nv
  have "generate_with_correction example_config scripted
     (generate_component example_config scripted) ''a button'' None example_answers =
     (Inr \<lparr>final_code = \<lparr>ts = ''('', html = [], raw = ''(''\<rparr>,
           final_validation = validate_component ds_white \<lparr>ts = ''('', html = [], raw = ''(''\<rparr>,
           attempts_made = 3, success = False\<rparr>, [])"
    by (simp add: example_attempt_def)
  with example_run ec e4 show ?thesis by simp
qed

subsection \<open>The extraction of a correction attempt\<close>





section \<open>What the extraction keeps of the response\<close>

subsection \<open>Deleting matches gives a subsequence\<close>

lemma scan_decomp:
  "scan r count n adv p s = (ps, left) \<Longrightarrow>
   s = concat (map (\<lambda>(pre, mt, c). pre @ mt) ps) @ left"
proof (induction r count n adv p s arbitrary: ps left rule: scan_induct)
  case (stop r count n adv p s)
  then show ?case by (simp add: scan_stop)
next
  case (none r count n adv p s)
  then show ?case by (simp add: scan_none)
next
  case (some r count n adv p s pre mt c p' s')
  obtain ps1 left1 where rec: "scan r count (n + 1) (mt = []) p' s' = (ps1, left1)"
    by (cases "scan r count (n + 1) (mt = []) p' s'")
  with some.prems some.hyps have ps: "ps = (pre, mt, c) # ps1" and left: "left = left1"
    by (simp_all add: scan_some)
  from some.hyps(2) have "s = pre @ mt @ s'" by (rule search_decomp)
  with some.IH [OF rec] ps left show ?case by simp
qed

lemma subseq_delete_pieces:
  "subseq (concat (map (\<lambda>(pre, mt, c). pre @ delete mt c) ps) @ left)
     (concat (map (\<lambda>(pre, mt, c). pre @ mt) ps) @ left)"
proof (induction ps)
  case Nil
  then show ?case by simp
next
  case (Cons piece ps)
  obtain pre mt c where piece: "piece = (pre, mt, c)" by (cases piece)
  let ?X = "concat (map (\<lambda>(pre, mt, c). pre @ delete mt c) ps) @ left"
  let ?Y = "concat (map (\<lambda>(pre, mt, c). pre @ mt) ps) @ left"
  have "subseq ?X (mt @ ?Y)"
    by (rule subseq_drop_many [OF Cons.IH])
  then have step: "subseq (pre @ ?X) (pre @ mt @ ?Y)"
    by (simp only: subseq_append')
  have l: "concat (map (\<lambda>(pre, mt, c). pre @ delete mt c) (piece # ps)) @ left =
      pre @ delete mt c @ ?X"
    unfolding piece by simp
  have r: "concat (map (\<lambda>(pre, mt, c). pre @ mt) (piece # ps)) @ left = pre @ mt @ ?Y"
    unfolding piece by simp
  have d: "delete mt c = []" by (simp add: delete_def)
  show ?case unfolding l r d append_Nil by (rule step)
qed

lemma subseq_re_sub_delete: "subseq (re_sub r delete s count) s"
proof -
  obtain ps left where sc: "scan r count 0 False None s = (ps, left)"
    by (cases "scan r count 0 False None s")
  from scan_decomp [OF sc] subseq_delete_pieces [of ps left] sc show ?thesis
    by (simp add: re_sub_def)
qed

subsection \<open>Stripping and slicing give a subsequence\<close>

lemma subseq_dropWhile: "subseq (dropWhile P s) s"
  by (induction s) auto

lemma suffix_lstrip: "suffix (lstrip s) s"
  unfolding lstrip_def by (rule suffix_dropWhile)

lemma prefix_rstrip: "prefix (rstrip s) s"
  using suffix_dropWhile [of is_space "rev s"] by (simp add: rstrip_def suffix_to_prefix)

lemma subseq_strip: "subseq (strip s) s"
proof -
  have "subseq (rstrip (lstrip s)) (lstrip s)"
    by (rule prefix_imp_subseq [OF prefix_rstrip])
  moreover have "subseq (lstrip s) s"
    by (rule suffix_imp_subseq [OF suffix_lstrip])
  ultimately show ?thesis unfolding strip_def by (rule subseq_order.trans)
qed

lemma subseq_drop: "subseq (drop n s) s"
  by (rule suffix_imp_subseq [OF suffix_drop])

lemma subseq_trim_ts: "subseq (trim_ts s) s"
  by (auto simp: trim_ts_def subseq_drop split: option.splits)

lemma subseq_trim_html: "subseq (trim_html s) s"
  by (auto simp: trim_html_def subseq_drop split: option.splits)

lemma subseq_strip_trailing: "subseq (strip_trailing s) s"
  unfolding strip_trailing_def
  by (rule subseq_order.trans [OF subseq_re_sub_delete subseq_strip])

lemma subseq_strip_noise: "subseq (strip_noise s) s"
  unfolding strip_noise_def Let_def
  by (rule subseq_order.trans [OF subseq_re_sub_delete subseq_re_sub_delete])

lemma subseq_split_parts:
  assumes "split_parts s = Inr (a, b)"
  shows "subseq (a @ b) s"
proof (cases "search sep_pattern False None s")
  case None
  with assms show ?thesis
    by (auto simp: split_parts_def re_split1_def Let_def split: option.splits)
next
  case (Some res)
  obtain pre mt c p' s' where res: "res = (pre, mt, c, p', s')" by (cases res) auto
  from Some res have "s = pre @ mt @ s'" by (auto dest: search_decomp)
  moreover from Some res assms have "a = pre" "b = s'"
    by (simp_all add: split_parts_def re_split1_def)
  ultimately show ?thesis
    by (simp add: subseq_append' subseq_drop_many)
qed

lemma subseq_segments:
  assumes "segments raw_text = Inr (t, h)"
  shows "subseq (t @ h) (clean_output raw_text)"
proof -
  let ?c = "strip_noise (clean_output raw_text)"
  from assms obtain a b where sp: "split_parts ?c = Inr (a, b)"
    and t: "t = strip_trailing (trim_ts a)" and h: "h = strip_trailing (trim_html b)"
    by (auto simp: segments_def Let_def split: sum.splits)
  have "subseq t a" unfolding t
    by (rule subseq_order.trans [OF subseq_strip_trailing subseq_trim_ts])
  moreover have "subseq h b" unfolding h
    by (rule subseq_order.trans [OF subseq_strip_trailing subseq_trim_html])
  ultimately have "subseq (t @ h) (a @ b)" by (rule list_emb_append_mono)
  also have "subseq (a @ b) ?c" by (rule subseq_split_parts [OF sp])
  also have "subseq ?c (clean_output raw_text)" by (rule subseq_strip_noise)
  finally show ?thesis .
qed


subsection \<open>The subsequence property\<close>

text \<open>
  C1, as stated, fails: the capability step writes an import that the response does not
  hold. For the response \<open>ngModel\<close> the primary source comes out as the import line, a
  newline and \<open>ngModel\<close>, which is not a subsequence of the cleaned response \<open>ngModel\<close>.
\<close>

theorem extraction_subsequence_counterexample:
  "extract_component ''ngModel'' =
     Inr \<lparr>ts = ''import { FormsModule } from '@angular/forms';'' @ [CHR 0x0A] @ ''ngModel'',
          html = [], raw = ''ngModel''\<rparr> \<and>
   clean_output ''ngModel'' = ''ngModel'' \<and>
   \<not> subseq ((''import { FormsModule } from '@angular/forms';'' @ [CHR 0x0A] @ ''ngModel'') @ [])
       (clean_output ''ngModel'')"
proof -
  have a: "extract_component ''ngModel'' =
     Inr \<lparr>ts = ''import { FormsModule } from '@angular/forms';'' @ [CHR 0x0A] @ ''ngModel'',
          html = [], raw = ''ngModel''\<rparr>"
    by code_simp
  have b: "clean_output ''ngModel'' = ''ngModel''"
    by code_simp
  have "length ((''import { FormsModule } from '@angular/forms';'' @ [CHR 0x0A] @ ''ngModel'') @ []) >
      length ''ngModel''"
    by simp
  then have c: "\<not> subseq ((''import { FormsModule } from '@angular/forms';'' @ [CHR 0x0A] @ ''ngModel'') @ [])
       ''ngModel''"
    by (metis list_emb_length not_less)
  from a b c show ?thesis by (simp only: not_False_eq_True simp_thms)
qed

text \<open>
  C1, amended. For every raw response, the two segments the extractor has after
  trimming (steps 1 to 6), concatenated, are a subsequence of the cleaned response. So
  whenever the three normalizations leave these segments as they are (no inline
  template is moved, no capability import or listing is added, no template reference
  is rewritten), the concatenation of the resulting primary source and markup is a
  subsequence of the cleaned response.
\<close>

theorem extraction_subsequence_without_normalization:
  assumes "segments raw_text = Inr (t, h)"
    and "inline_template (t, h) = Inr (t, h)"
    and "ensure_forms_module t h raw_text = Inr t"
    and "normalize_template_url t = t"
  shows "subseq (t @ h) (clean_output raw_text) \<and>
     (\<exists>cd. extract_component raw_text = Inr cd \<and>
        subseq (ts cd @ html cd) (clean_output raw_text))"
proof -
  have seg: "subseq (t @ h) (clean_output raw_text)"
    by (rule subseq_segments [OF assms(1)])
  from assms have ex: "extract_component raw_text =
      Inr \<lparr>ts = strip t, html = strip h, raw = raw_text\<rparr>"
    by (simp add: extract_component_def Let_def)
  have "subseq (strip t @ strip h) (t @ h)"
    by (rule list_emb_append_mono [OF subseq_strip subseq_strip])
  from subseq_order.trans [OF this seg] ex seg show ?thesis by simp
qed

definition example_response :: string where
  "example_response =
     ''Sure:'' @ [CHR 0x0A] @ ''export class A {}'' @ [CHR 0x0A] @ ''--- HTML ---'' @
     [CHR 0x0A] @ ''<p>hi</p>'' @ [CHR 0x0A] @ ''---''"

theorem extraction_subsequence_without_normalization_witness:
  "segments example_response = Inr (''export class A {}'', ''<p>hi</p>'') \<and>
   inline_template (''export class A {}'', ''<p>hi</p>'') =
     Inr (''export class A {}'', ''<p>hi</p>'') \<and>
   ensure_forms_module ''export class A {}'' ''<p>hi</p>'' example_response =
     Inr ''export class A {}'' \<and>
   normalize_template_url ''export class A {}'' = ''export class A {}'' \<and>
   subseq (''export class A {}'' @ ''<p>hi</p>'') (clean_output example_response) \<and>
   (\<exists>cd. extract_component example_response = Inr cd \<and>
      subseq (ts cd @ html cd) (clean_output example_response))"
proof -
  have a: "segments example_response = Inr (''export class A {}'', ''<p>hi</p>'')"
    by code_simp
  have b: "inline_template (''export class A {}'', ''<p>hi</p>'') =
     Inr (''export class A {}'', ''<p>hi</p>'')"
    by code_simp
  have c: "ensure_forms_module ''export class A {}'' ''<p>hi</p>'' example_response =
     Inr ''export class A {}''"
    by code_simp
  have d: "normalize_template_url ''export class A {}'' = ''export class A {}''"
    by code_simp
  from extraction_subsequence_without_normalization [OF a b c d] a b c d
  show ?thesis by blast
qed


section \<open>The capability step\<close>

subsection \<open>One substitution\<close>






subsection \<open>A group around the whole pattern holds the whole match\<close>




subsection \<open>The listing of \<open>FormsModule\<close>, said directly\<close>





subsection \<open>The import of \<open>FormsModule\<close>\<close>





subsection \<open>The capability step in the extraction\<close>








end
